theory Spec2Isabelle
  imports Main "HOL-Library.Word" "HOL-Library.List_Lexorder" "HOL-Library.Char_ord"
begin

section \<open>JavaScript strings\<close>

text \<open>
  A JavaScript string is a sequence of 16-bit code units. \<open>str\<close> turns an ASCII literal
  of the theory into such a sequence.
\<close>

type_synonym jsstring = "16 word list"

definition str :: "string \<Rightarrow> jsstring" where
  "str s = map (\<lambda>c. of_nat (of_char c)) s"

section \<open>The scheduler (src/cron/manager.ts)\<close>

text \<open>
  A handler is an asynchronous action on the outside world \<open>'w\<close>: awaiting it either
  fulfils or rejects (the handler threw), and leaves the world in a new state.
\<close>

datatype settled = Fulfilled | Rejected

record ('e, 'w) CronJob =
  name :: jsstring
  interval :: int
  lastRun :: int
  handler :: "'e \<Rightarrow> 'w \<Rightarrow> settled \<times> 'w"

text \<open>The lines the manager writes to the console, one constructor per call site.\<close>

datatype cron_log =
    Registered jsstring int   \<comment> \<open>Registered cron job: name (interval: n ms)\<close>
  | Executing jsstring        \<comment> \<open>Executing cron job: name\<close>
  | Completed jsstring        \<comment> \<open>Completed cron job: name\<close>
  | ErrorIn jsstring          \<comment> \<open>Error in cron job name: error\<close>

definition registerCronJob ::
  "jsstring \<Rightarrow> int \<Rightarrow> ('e \<Rightarrow> 'w \<Rightarrow> settled \<times> 'w) \<Rightarrow> ('e, 'w) CronJob list
     \<Rightarrow> ('e, 'w) CronJob list \<times> cron_log list" where
  "registerCronJob nm iv h jobs =
     (jobs @ [\<lparr>name = nm, interval = iv, lastRun = 0, handler = h\<rparr>], [Registered nm iv])"

text \<open>
  \<open>executeDueJobs\<close>: \<open>now\<close> is the value \<open>Date.now()\<close> returned at the start of the tick.
  The result is the job list with its updated \<open>lastRun\<close> fields, the world after the
  handlers ran, and the console lines written.
\<close>

fun executeDueJobs ::
  "'e \<Rightarrow> int \<Rightarrow> ('e, 'w) CronJob list \<Rightarrow> 'w \<Rightarrow> ('e, 'w) CronJob list \<times> 'w \<times> cron_log list" where
  "executeDueJobs env now [] w = ([], w, [])"
| "executeDueJobs env now (job # rest) w =
     (if now - lastRun job \<ge> interval job then
        (case handler job env w of
           (Fulfilled, w1) \<Rightarrow>
             (case executeDueJobs env now rest w1 of
                (rest', w2, out) \<Rightarrow>
                  (job\<lparr>lastRun := now\<rparr> # rest', w2,
                   [Executing (name job), Completed (name job)] @ out))
         | (Rejected, w1) \<Rightarrow>
             (case executeDueJobs env now rest w1 of
                (rest', w2, out) \<Rightarrow>
                  (job # rest', w2, [Executing (name job), ErrorIn (name job)] @ out)))
      else
        (case executeDueJobs env now rest w of
           (rest', w2, out) \<Rightarrow> (job # rest', w2, out)))"

text \<open>The world in which the job at position \<open>i\<close> is considered: the one left by the jobs before it.\<close>

definition world_before ::
  "'e \<Rightarrow> int \<Rightarrow> ('e, 'w) CronJob list \<Rightarrow> 'w \<Rightarrow> nat \<Rightarrow> 'w" where
  "world_before env now jobs w i = fst (snd (executeDueJobs env now (take i jobs) w))"

text \<open>What one tick does to one job that is considered in world \<open>w\<close>.\<close>

definition tick_job :: "'e \<Rightarrow> int \<Rightarrow> 'w \<Rightarrow> ('e, 'w) CronJob \<Rightarrow> ('e, 'w) CronJob" where
  "tick_job env now w job =
     (if now - lastRun job \<ge> interval job \<and> fst (handler job env w) = Fulfilled
      then job\<lparr>lastRun := now\<rparr> else job)"

text \<open>Two handlers for concrete runs: one that counts its calls, one that counts and throws.\<close>

definition counting_handler :: "unit \<Rightarrow> nat \<Rightarrow> settled \<times> nat" where
  "counting_handler env w = (Fulfilled, Suc w)"

definition failing_handler :: "unit \<Rightarrow> nat \<Rightarrow> settled \<times> nat" where
  "failing_handler env w = (Rejected, Suc w)"

definition good_job :: "(unit, nat) CronJob" where
  "good_job = \<lparr>name = str ''good'', interval = 1000, lastRun = 0, handler = counting_handler\<rparr>"

definition failing_job :: "(unit, nat) CronJob" where
  "failing_job = \<lparr>name = str ''bad'', interval = 1000, lastRun = 0, handler = failing_handler\<rparr>"

section \<open>Trending-story selection (the Hacker News job)\<close>

text \<open>
  Items as the item-detail service returns them. The interface declares \<open>url\<close> and
  \<open>kids\<close> as always present, but the service leaves them out and the code tests for
  that, so both are optional here.
\<close>

record HNStory =
  id_hn :: int
  title :: jsstring
  url :: "jsstring option"
  by_hn :: jsstring
  score :: int
  time_hn :: int
  descendants :: int
  kids :: "int list option"
  type_hn :: jsstring

text \<open>
  What \<open>await fetch(...)\<close> gives: the promise rejects, or there is a response with its
  \<open>ok\<close> flag, its status and the value \<open>response.json()\<close> resolves to at the type the
  code casts it to (\<open>None\<close>: the body is not JSON and \<open>json()\<close> rejects).
\<close>

datatype 'a response = Response (resp_ok: bool) (resp_status: int) (resp_json: "'a option")

datatype 'a fetched = FetchRejected | Fetched "'a response"

text \<open>
  The two endpoints of the service, as functions of the state \<open>'n\<close> of the outside
  world: every call may answer differently. The body of an item may be JSON \<open>null\<close>
  (the inner \<open>None\<close>).
\<close>

record 'n hn_api =
  topstories :: "'n \<Rightarrow> int list fetched \<times> 'n"
  item :: "int \<Rightarrow> 'n \<Rightarrow> HNStory option fetched \<times> 'n"

text \<open>The console lines of the selection, one constructor per call site.\<close>

datatype hn_log =
    CacheReset               \<comment> \<open>Resetting posted stories cache (24-hour TTL expired)\<close>
  | MarkedAsPosted int nat   \<comment> \<open>Story id marked as posted. Cache now has n stories.\<close>
  | ErrorTopStories          \<comment> \<open>Error fetching top stories: error\<close>
  | ErrorItem int            \<comment> \<open>Error fetching item id: error\<close>
  | Skipping int             \<comment> \<open>Skipping story id as it was already posted today\<close>
  | AllPosted                \<comment> \<open>All top stories have been posted today, resetting tracker ...\<close>
  | ErrorTopStory            \<comment> \<open>Error fetching top story: error\<close>

text \<open>The module's two variables, the console, and the outside world.\<close>

record 'n hn_state =
  postedStories :: "int list"
  lastResetTimestamp :: int
  console :: "hn_log list"
  net :: 'n

definition say :: "hn_log \<Rightarrow> 'n hn_state \<Rightarrow> 'n hn_state" where
  "say line s = s\<lparr>console := console s @ [line]\<rparr>"

text \<open>\<open>now\<close> is the value of \<open>Date.now()\<close> read by \<open>checkAndResetCache\<close>.\<close>

definition checkAndResetCache :: "int \<Rightarrow> 'n hn_state \<Rightarrow> 'n hn_state" where
  "checkAndResetCache now s =
     (if now - lastResetTimestamp s > 86400000
      then (say CacheReset s)\<lparr>postedStories := [], lastResetTimestamp := now\<rparr>
      else s)"

definition markStoryAsPosted :: "int \<Rightarrow> 'n hn_state \<Rightarrow> 'n hn_state" where
  "markStoryAsPosted storyId s =
     (if storyId \<notin> set (postedStories s)
      then say (MarkedAsPosted storyId (Suc (length (postedStories s))))
             (s\<lparr>postedStories := postedStories s @ [storyId]\<rparr>)
      else s)"

definition fetchTopStories :: "'n hn_api \<Rightarrow> 'n hn_state \<Rightarrow> int list \<times> 'n hn_state" where
  "fetchTopStories api s =
     (case topstories api (net s) of
        (FetchRejected, n) \<Rightarrow> ([], say ErrorTopStories (s\<lparr>net := n\<rparr>))
      | (Fetched r, n) \<Rightarrow>
          (if \<not> resp_ok r then ([], say ErrorTopStories (s\<lparr>net := n\<rparr>))
           else (case resp_json r of
                   None \<Rightarrow> ([], say ErrorTopStories (s\<lparr>net := n\<rparr>))
                 | Some ids \<Rightarrow> (ids, s\<lparr>net := n\<rparr>))))"

definition fetchItem :: "'n hn_api \<Rightarrow> int \<Rightarrow> 'n hn_state \<Rightarrow> HNStory option \<times> 'n hn_state" where
  "fetchItem api i s =
     (case item api i (net s) of
        (FetchRejected, n) \<Rightarrow> (None, say (ErrorItem i) (s\<lparr>net := n\<rparr>))
      | (Fetched r, n) \<Rightarrow>
          (if \<not> resp_ok r then (None, say (ErrorItem i) (s\<lparr>net := n\<rparr>))
           else (case resp_json r of
                   None \<Rightarrow> (None, say (ErrorItem i) (s\<lparr>net := n\<rparr>))
                 | Some v \<Rightarrow> (v, s\<lparr>net := n\<rparr>))))"

text \<open>The test \<open>story && story.url && story.kids && story.kids.length > 0\<close>.\<close>

definition valid_story :: "HNStory option \<Rightarrow> bool" where
  "valid_story v =
     (case v of
        None \<Rightarrow> False
      | Some story \<Rightarrow>
          (case url story of
             None \<Rightarrow> False
           | Some u \<Rightarrow>
               u \<noteq> [] \<and> (case kids story of None \<Rightarrow> False | Some ks \<Rightarrow> length ks > 0)))"

text \<open>
  The first loop of \<open>fetchTopStory\<close>, over the first 30 identifiers: skip the posted
  ones, fetch the others, stop at the first valid story and mark it.
\<close>

fun firstPass ::
  "'n hn_api \<Rightarrow> int list \<Rightarrow> 'n hn_state \<Rightarrow> HNStory option \<times> 'n hn_state" where
  "firstPass api [] s = (None, s)"
| "firstPass api (storyId # rest) s =
     (if storyId \<in> set (postedStories s) then firstPass api rest (say (Skipping storyId) s)
      else (case fetchItem api storyId s of
              (story, s1) \<Rightarrow>
                if valid_story story then (story, markStoryAsPosted storyId s1)
                else firstPass api rest s1))"

text \<open>The second loop, over the first 10 identifiers, with no look at the dedup set.\<close>

fun fallbackPass ::
  "'n hn_api \<Rightarrow> int list \<Rightarrow> 'n hn_state \<Rightarrow> HNStory option \<times> 'n hn_state" where
  "fallbackPass api [] s = (None, s)"
| "fallbackPass api (storyId # rest) s =
     (case fetchItem api storyId s of
        (story, s1) \<Rightarrow>
          if valid_story story then (story, markStoryAsPosted storyId s1)
          else fallbackPass api rest s1)"

definition fetchTopStory ::
  "int \<Rightarrow> 'n hn_api \<Rightarrow> 'n hn_state \<Rightarrow> HNStory option \<times> 'n hn_state" where
  "fetchTopStory now api s =
     (case fetchTopStories api (checkAndResetCache now s) of
        (topStoryIds, s1) \<Rightarrow>
          if topStoryIds = [] then (None, say ErrorTopStory s1)
          else (case firstPass api (take 30 topStoryIds) s1 of
                  (Some story, s2) \<Rightarrow> (Some story, s2)
                | (None, s2) \<Rightarrow>
                    if length (postedStories s2) > 0
                    then fallbackPass api (take 10 topStoryIds)
                           ((say AllPosted s2)\<lparr>postedStories := []\<rparr>)
                    else (None, s2)))"

text \<open>
  The lines a call wrote, and the mark of the fallback path: its own console line.
\<close>

definition emitted :: "'n hn_state \<Rightarrow> 'n hn_state \<Rightarrow> hn_log list" where
  "emitted s s' = drop (length (console s)) (console s')"

definition fallback_taken :: "int \<Rightarrow> 'n hn_api \<Rightarrow> 'n hn_state \<Rightarrow> bool" where
  "fallback_taken now api s = (AllPosted \<in> set (emitted s (snd (fetchTopStory now api s))))"

text \<open>
  A service that answers an item request with the item of that identifier
  (a property of the outside world, not of the code).
\<close>

definition faithful :: "'n hn_api \<Rightarrow> bool" where
  "faithful api =
     (\<forall>i n. case fst (item api i n) of
              FetchRejected \<Rightarrow> True
            | Fetched r \<Rightarrow>
                (case resp_json r of Some (Some story) \<Rightarrow> id_hn story = i | _ \<Rightarrow> True))"

text \<open>A small world for concrete runs: a fixed ranking, and stories by identifier.\<close>

definition story_of :: "int \<Rightarrow> HNStory" where
  "story_of i =
     \<lparr>id_hn = i, title = str ''A story'',
      url = (if i = 2 then None else Some (str ''https://example.org/'')),
      by_hn = str ''pg'', score = 1, time_hn = 0, descendants = 1,
      kids = Some [100], type_hn = str ''story''\<rparr>"

definition fixed_api :: "int list \<Rightarrow> unit hn_api" where
  "fixed_api ids =
     \<lparr>topstories = (\<lambda>n. (Fetched (Response True 200 (Some ids)), n)),
      item = (\<lambda>i n. (Fetched (Response True 200 (Some (Some (story_of i)))), n))\<rparr>"

definition cache :: "int list \<Rightarrow> int \<Rightarrow> unit hn_state" where
  "cache posted t = \<lparr>postedStories = posted, lastResetTimestamp = t, console = [], net = ()\<rparr>"

text \<open>
  The identifiers a call scans and the state in which its first pass starts: what
  \<open>fetchTopStories\<close> returns after the window check.
\<close>

definition scan_ids :: "int \<Rightarrow> 'n hn_api \<Rightarrow> 'n hn_state \<Rightarrow> int list" where
  "scan_ids now api s = fst (fetchTopStories api (checkAndResetCache now s))"

definition scan_start :: "int \<Rightarrow> 'n hn_api \<Rightarrow> 'n hn_state \<Rightarrow> 'n hn_state" where
  "scan_start now api s = snd (fetchTopStories api (checkAndResetCache now s))"

text \<open>
  The first pass rejects the identifier at position \<open>k\<close>: it is in the dedup set, or the
  item fetched for it (in the state the scan has reached there) is not a valid story.
\<close>

definition rejected :: "'n hn_api \<Rightarrow> int list \<Rightarrow> 'n hn_state \<Rightarrow> nat \<Rightarrow> bool" where
  "rejected api ids s k =
     (ids ! k \<in> set (postedStories s)
      \<or> \<not> valid_story (fst (fetchItem api (ids ! k) (snd (firstPass api (take k ids) s)))))"

text \<open>
  The state in which the fallback's re-scan starts: the one the first pass left, with the
  fallback's console line written and the dedup set emptied.
\<close>

definition fallback_start :: "int \<Rightarrow> 'n hn_api \<Rightarrow> 'n hn_state \<Rightarrow> 'n hn_state" where
  "fallback_start now api s =
     (say AllPosted (snd (firstPass api (take 30 (scan_ids now api s)) (scan_start now api s))))
       \<lparr>postedStories := []\<rparr>"

text \<open>
  The re-scan finds no valid story at position \<open>k\<close>: the item fetched for the identifier
  there (in the state the re-scan has reached) is not a valid story. The dedup set plays
  no part.
\<close>

definition unfit :: "'n hn_api \<Rightarrow> int list \<Rightarrow> 'n hn_state \<Rightarrow> nat \<Rightarrow> bool" where
  "unfit api ids s k =
     (\<not> valid_story (fst (fetchItem api (ids ! k) (snd (fallbackPass api (take k ids) s)))))"

text \<open>A step that keeps the window start and writes no fallback line.\<close>

definition quiet :: "'n hn_state \<Rightarrow> 'n hn_state \<Rightarrow> bool" where
  "quiet s s' = (lastResetTimestamp s' = lastResetTimestamp s
     \<and> (\<exists>out. console s' = console s @ out \<and> AllPosted \<notin> set out))"

section \<open>Library functions of the platform used by the services\<close>

definition join :: "jsstring \<Rightarrow> jsstring list \<Rightarrow> jsstring" where
  "join sep xs = (case xs of [] \<Rightarrow> [] | x # rest \<Rightarrow> x @ concat (map (\<lambda>y. sep @ y) rest))"

text \<open>UTF-8 octets of a code point.\<close>

definition utf8 :: "nat \<Rightarrow> nat list" where
  "utf8 cp =
     (if cp < 0x80 then [cp]
      else if cp < 0x800 then [0xC0 + cp div 0x40, 0x80 + cp mod 0x40]
      else if cp < 0x10000 then
        [0xE0 + cp div 0x1000, 0x80 + (cp div 0x40) mod 0x40, 0x80 + cp mod 0x40]
      else
        [0xF0 + cp div 0x40000, 0x80 + (cp div 0x1000) mod 0x40,
         0x80 + (cp div 0x40) mod 0x40, 0x80 + cp mod 0x40])"

definition hex_upper :: "nat \<Rightarrow> 16 word" where
  "hex_upper d = (if d < 10 then of_nat (48 + d) else of_nat (55 + d))"

definition hex_lower :: "nat \<Rightarrow> 16 word" where
  "hex_lower d = (if d < 10 then of_nat (48 + d) else of_nat (87 + d))"

definition percent :: "nat list \<Rightarrow> jsstring" where
  "percent octets = concat (map (\<lambda>b. [0x25, hex_upper (b div 16), hex_upper (b mod 16)]) octets)"

text \<open>
  The characters \<open>encodeURIComponent\<close> leaves alone: letters, digits and \<open>- _ . ! ~ * ' ( )\<close>.
\<close>

definition unreserved :: "16 word \<Rightarrow> bool" where
  "unreserved c =
     ((0x41 \<le> c \<and> c \<le> 0x5A) \<or> (0x61 \<le> c \<and> c \<le> 0x7A) \<or> (0x30 \<le> c \<and> c \<le> 0x39)
      \<or> c \<in> set [0x2D, 0x5F, 0x2E, 0x21, 0x7E, 0x2A, 0x27, 0x28, 0x29])"

definition high_surrogate :: "16 word \<Rightarrow> bool" where
  "high_surrogate c = (0xD800 \<le> c \<and> c \<le> 0xDBFF)"

definition low_surrogate :: "16 word \<Rightarrow> bool" where
  "low_surrogate c = (0xDC00 \<le> c \<and> c \<le> 0xDFFF)"

definition pair_code_point :: "16 word \<Rightarrow> 16 word \<Rightarrow> nat" where
  "pair_code_point hi lo = 0x10000 + (unat hi - 0xD800) * 0x400 + (unat lo - 0xDC00)"

text \<open>
  \<open>encodeURIComponent\<close>; \<open>None\<close> is the URIError it throws on an unpaired surrogate.
\<close>

fun encodeURIComponent :: "jsstring \<Rightarrow> jsstring option" where
  "encodeURIComponent [] = Some []"
| "encodeURIComponent (c # cs) =
     (if unreserved c then map_option (\<lambda>r. c # r) (encodeURIComponent cs)
      else if high_surrogate c then
        (case cs of
           [] \<Rightarrow> None
         | d # ds \<Rightarrow>
             if low_surrogate d
             then map_option (\<lambda>r. percent (utf8 (pair_code_point c d)) @ r) (encodeURIComponent ds)
             else None)
      else if low_surrogate c then None
      else map_option (\<lambda>r. percent (utf8 (unat c)) @ r) (encodeURIComponent cs))"

text \<open>\<open>TextEncoder.encode\<close>: UTF-8, an unpaired surrogate becoming U+FFFD.\<close>

fun textEncode :: "jsstring \<Rightarrow> nat list" where
  "textEncode [] = []"
| "textEncode (c # cs) =
     (if high_surrogate c then
        (case cs of
           [] \<Rightarrow> utf8 0xFFFD
         | d # ds \<Rightarrow>
             if low_surrogate d then utf8 (pair_code_point c d) @ textEncode ds
             else utf8 0xFFFD @ textEncode cs)
      else if low_surrogate c then utf8 0xFFFD @ textEncode cs
      else utf8 (unat c) @ textEncode cs)"

definition base64_digit :: "nat \<Rightarrow> 16 word" where
  "base64_digit d =
     (if d < 26 then of_nat (65 + d) else if d < 52 then of_nat (71 + d)
      else if d < 62 then of_nat (d - 4) else if d = 62 then 0x2B else 0x2F)"

text \<open>\<open>btoa\<close> on a string of characters below 256, given by their codes.\<close>

fun btoa :: "nat list \<Rightarrow> jsstring" where
  "btoa (a # b # c # rest) =
     [base64_digit (a div 4), base64_digit ((a mod 4) * 16 + b div 16),
      base64_digit ((b mod 16) * 4 + c div 64), base64_digit (c mod 64)] @ btoa rest"
| "btoa [a, b] =
     [base64_digit (a div 4), base64_digit ((a mod 4) * 16 + b div 16),
      base64_digit ((b mod 16) * 4), 0x3D]"
| "btoa [a] = [base64_digit (a div 4), base64_digit ((a mod 4) * 16), 0x3D, 0x3D]"
| "btoa [] = []"

text \<open>Decimal digits of a natural number, and \<open>toString()\<close> of an integral number.\<close>

function decimal :: "nat \<Rightarrow> jsstring" where
  "decimal n = (if n < 10 then [of_nat (48 + n)] else decimal (n div 10) @ [of_nat (48 + n mod 10)])"
  by pat_completeness auto
termination
  by (relation "measure id") auto

declare decimal.simps [simp del]

definition number_toString :: "int \<Rightarrow> jsstring" where
  "number_toString i = (if i < 0 then 0x2D # decimal (nat (- i)) else decimal (nat i))"

section \<open>JSON values\<close>

text \<open>
  A JSON value as \<open>JSON.parse\<close> builds it and \<open>JSON.stringify\<close> reads it. A number keeps
  the text of its literal. An object keeps its members in source order (of a repeated key
  the last member is the property's value).
\<close>

datatype json =
    JNull
  | JBool bool
  | JNumber jsstring
  | JString jsstring
  | JArray "json list"
  | JObject "(jsstring \<times> json) list"

section \<open>Publishing (the Twitter and Telegram service)\<close>

text \<open>The environment bag: every variable may be missing, and so may the bag itself.\<close>

record Env =
  OPENAI_API_KEY :: "jsstring option"
  OPENAI_MODEL :: "jsstring option"
  TG_BOT_TOKEN :: "jsstring option"
  TG_CHAT_ID :: "jsstring option"
  TWITTER_CONSUMER_KEY :: "jsstring option"
  TWITTER_CONSUMER_SECRET :: "jsstring option"
  TWITTER_ACCESS_TOKEN :: "jsstring option"
  TWITTER_ACCESS_SECRET :: "jsstring option"

text \<open>\<open>env?.X\<close>, and the truth value of the string or \<open>undefined\<close> it gives.\<close>

definition getenv :: "Env option \<Rightarrow> (Env \<Rightarrow> jsstring option) \<Rightarrow> jsstring option" where
  "getenv env var = (case env of None \<Rightarrow> None | Some e \<Rightarrow> var e)"

definition truthy :: "jsstring option \<Rightarrow> bool" where
  "truthy v = (case v of None \<Rightarrow> False | Some s \<Rightarrow> s \<noteq> [])"

text \<open>
  A request as handed to \<open>fetch\<close>; \<open>req_body\<close> is the value given to \<open>JSON.stringify\<close>.
  The outside world answers a request and moves to a new state.
\<close>

record request =
  req_url :: jsstring
  req_method :: jsstring
  req_headers :: "(jsstring \<times> jsstring) list"
  req_body :: json

type_synonym 'n fetch = "request \<Rightarrow> 'n \<Rightarrow> json fetched \<times> 'n"

text \<open>
  \<open>generateNonce\<close>: \<open>rnd\<close> holds the 32 bytes \<open>crypto.getRandomValues\<close> wrote.
\<close>

definition generateNonce :: "8 word list \<Rightarrow> jsstring" where
  "generateNonce rnd =
     take 32 (concat (map (\<lambda>byte. [hex_lower (unat byte div 16), hex_lower (unat byte mod 16)]) rnd))"

text \<open>
  \<open>createOAuthSignature\<close>: \<open>hmac\<close> is HMAC-SHA1 as \<open>crypto.subtle\<close> computes it, from the
  key bytes and the message bytes to the signature bytes.
\<close>

definition createOAuthSignature ::
  "(nat list \<Rightarrow> nat list \<Rightarrow> 8 word list) \<Rightarrow> jsstring \<Rightarrow> jsstring \<Rightarrow> jsstring" where
  "createOAuthSignature hmac signingKey baseString =
     btoa (map unat (hmac (textEncode signingKey) (textEncode baseString)))"

text \<open>
  \<open>escapeTelegramMarkdown\<close>: for each special character in turn, every occurrence gets a
  backslash in front.
\<close>

definition specialCharacters :: "16 word list" where
  "specialCharacters = str ''_*[]()~`>#+-=|{}.!?@''"

definition replace_char :: "16 word \<Rightarrow> jsstring \<Rightarrow> jsstring" where
  "replace_char ch t = concat (map (\<lambda>c. if c = ch then [0x5C, ch] else [c]) t)"

definition escapeTelegramMarkdown :: "jsstring \<Rightarrow> jsstring" where
  "escapeTelegramMarkdown tweet = foldl (\<lambda>teleTweet ch. replace_char ch teleTweet) tweet specialCharacters"

text \<open>
  \<open>sendTelegramMessage\<close>: false without a request when the bot token or the chat
  identifier is missing or empty; otherwise one request, and the result is the
  response's \<open>ok\<close> flag. A rejected \<open>fetch\<close> is caught and gives false. (When the
  response is not \<open>ok\<close> the code reads its text only to log it.)
\<close>

definition sendTelegramMessage ::
  "'n fetch \<Rightarrow> jsstring \<Rightarrow> jsstring \<Rightarrow> Env option \<Rightarrow> 'n \<Rightarrow> bool \<times> 'n" where
  "sendTelegramMessage fetch tweet prefix env n =
     (case (getenv env TG_BOT_TOKEN, getenv env TG_CHAT_ID) of
        (Some botToken, Some chatId) \<Rightarrow>
          if botToken = [] \<or> chatId = [] then (False, n)
          else
            (case fetch
                \<lparr>req_url = str ''https://api.telegram.org/bot'' @ botToken @ str ''/sendMessage'',
                 req_method = str ''POST'',
                 req_headers = [(str ''Content-Type'', str ''application/json'')],
                 req_body = JObject
                   [(str ''chat_id'', JString chatId),
                    (str ''text'', JString (prefix @ tweet)),
                    (str ''parse_mode'', JString (str ''MarkdownV2'')),
                    (str ''disable_web_page_preview'', JBool True),
                    (str ''disable_notification'', JBool True)]\<rparr> n of
               (FetchRejected, n1) \<Rightarrow> (False, n1)
             | (Fetched r, n1) \<Rightarrow> (resp_ok r, n1))
      | _ \<Rightarrow> (False, n))"

text \<open>
  The OAuth parameter object: its properties in insertion order. \<open>Object.keys\<close> lists
  the keys in that order, \<open>lookup\<close> reads a property.
\<close>

type_synonym params = "(jsstring \<times> jsstring) list"

definition lookup :: "params \<Rightarrow> jsstring \<Rightarrow> jsstring" where
  "lookup ps key = (case map_of ps key of None \<Rightarrow> str ''undefined'' | Some v \<Rightarrow> v)"

text \<open>All results of a list of fallible steps, or the failure of one of them.\<close>

fun sequence :: "'a option list \<Rightarrow> 'a list option" where
  "sequence [] = Some []"
| "sequence (x # xs) =
     (case x of None \<Rightarrow> None | Some y \<Rightarrow> map_option (\<lambda>ys. y # ys) (sequence xs))"

text \<open>
  The signature base string (lines 164 to 176 of the service): the keys are sorted, each
  value is percent-encoded into its \<open>key=value\<close> item, the items are joined with an
  ampersand, and the joined string is percent-encoded again.
\<close>

definition parameterItems :: "params \<Rightarrow> jsstring list option" where
  "parameterItems ps =
     sequence (map (\<lambda>key. map_option (\<lambda>v. key @ str ''='' @ v) (encodeURIComponent (lookup ps key)))
                 (sort (map fst ps)))"

definition signatureBaseString :: "jsstring \<Rightarrow> params \<Rightarrow> jsstring option" where
  "signatureBaseString u ps =
     (case encodeURIComponent u of
        None \<Rightarrow> None
      | Some eu \<Rightarrow>
          (case parameterItems ps of
             None \<Rightarrow> None
           | Some items \<Rightarrow>
               (case encodeURIComponent (join (str ''&'') items) of
                  None \<Rightarrow> None
                | Some ep \<Rightarrow> Some (join (str ''&'') [str ''POST'', eu, ep]))))"

text \<open>The authorization header (lines 186 to 191): the keys as \<open>Object.keys\<close> lists them.\<close>

definition headerItems :: "params \<Rightarrow> jsstring list option" where
  "headerItems ps =
     sequence (map (\<lambda>key.
                 case encodeURIComponent key of
                   None \<Rightarrow> None
                 | Some ek \<Rightarrow>
                     map_option (\<lambda>ev. ek @ str ''=\"'' @ ev @ str ''\"'')
                       (encodeURIComponent (lookup ps key)))
               (map fst ps))"

definition authHeader :: "params \<Rightarrow> jsstring option" where
  "authHeader ps = map_option (\<lambda>items. str ''OAuth '' @ join (str '', '') items) (headerItems ps)"

definition twitter_url :: jsstring where
  "twitter_url = str ''https://api.twitter.com/2/tweets''"

text \<open>
  The parameter object before signing, in the order of the object literal;
  \<open>now\<close> is the value of \<open>Date.now()\<close>.
\<close>

definition oauthParams :: "jsstring \<Rightarrow> jsstring \<Rightarrow> int \<Rightarrow> 8 word list \<Rightarrow> params" where
  "oauthParams consumerKey accessToken now rnd =
     [(str ''oauth_consumer_key'', consumerKey),
      (str ''oauth_nonce'', generateNonce rnd),
      (str ''oauth_signature_method'', str ''HMAC-SHA1''),
      (str ''oauth_timestamp'', number_toString (now div 1000)),
      (str ''oauth_token'', accessToken),
      (str ''oauth_version'', str ''1.0'')]"

text \<open>
  The four credentials (lines 130 to 138): \<open>None\<close> when one of them is missing or empty.
\<close>

definition credentials :: "Env option \<Rightarrow> (jsstring \<times> jsstring \<times> jsstring \<times> jsstring) option" where
  "credentials env =
     (case getenv env TWITTER_CONSUMER_KEY of
        None \<Rightarrow> None
      | Some consumerKey \<Rightarrow>
     (case getenv env TWITTER_CONSUMER_SECRET of
        None \<Rightarrow> None
      | Some consumerSecret \<Rightarrow>
     (case getenv env TWITTER_ACCESS_TOKEN of
        None \<Rightarrow> None
      | Some accessToken \<Rightarrow>
     (case getenv env TWITTER_ACCESS_SECRET of
        None \<Rightarrow> None
      | Some accessTokenSecret \<Rightarrow>
          if consumerKey = [] \<or> consumerSecret = [] \<or> accessToken = [] \<or> accessTokenSecret = []
          then None
          else Some (consumerKey, consumerSecret, accessToken, accessTokenSecret)))))"

text \<open>The signing key, \<open>None\<close> when a percent-encoding throws.\<close>

definition signingKey :: "jsstring \<Rightarrow> jsstring \<Rightarrow> jsstring option" where
  "signingKey consumerSecret accessTokenSecret =
     (case encodeURIComponent consumerSecret of
        None \<Rightarrow> None
      | Some es \<Rightarrow>
          map_option (\<lambda>et. es @ str ''&'' @ et) (encodeURIComponent accessTokenSecret))"

text \<open>
  The signed request \<open>postToTwitter\<close> builds once the four credentials are there;
  \<open>None\<close> when a percent-encoding throws.
\<close>

definition signedRequest ::
  "(nat list \<Rightarrow> nat list \<Rightarrow> 8 word list) \<Rightarrow> jsstring \<Rightarrow> jsstring \<Rightarrow> jsstring \<Rightarrow> jsstring
     \<Rightarrow> jsstring \<Rightarrow> int \<Rightarrow> 8 word list \<Rightarrow> request option" where
  "signedRequest hmac tweetText consumerKey consumerSecret accessToken accessTokenSecret now rnd =
     (case signatureBaseString twitter_url (oauthParams consumerKey accessToken now rnd) of
        None \<Rightarrow> None
      | Some baseString \<Rightarrow>
          (case signingKey consumerSecret accessTokenSecret of
             None \<Rightarrow> None
           | Some key \<Rightarrow>
               (case authHeader (oauthParams consumerKey accessToken now rnd
                                   @ [(str ''oauth_signature'', createOAuthSignature hmac key baseString)]) of
                  None \<Rightarrow> None
                | Some h \<Rightarrow>
                    Some \<lparr>req_url = twitter_url, req_method = str ''POST'',
                          req_headers = [(str ''Authorization'', h),
                                         (str ''Content-Type'', str ''application/json'')],
                          req_body = JObject [(str ''text'', JString tweetText)]\<rparr>)))"

text \<open>
  \<open>postToTwitter\<close>: the whole body is one \<open>try\<close> block whose \<open>catch\<close> returns false, so a
  thrown percent-encoding and a rejected \<open>fetch\<close> give false. The result is true when the
  response is \<open>ok\<close> and its body is read as JSON without a throw.
\<close>

definition postToTwitter ::
  "(nat list \<Rightarrow> nat list \<Rightarrow> 8 word list) \<Rightarrow> 'n fetch \<Rightarrow> jsstring \<Rightarrow> Env option \<Rightarrow> int \<Rightarrow> 8 word list
     \<Rightarrow> 'n \<Rightarrow> bool \<times> 'n" where
  "postToTwitter hmac fetch tweetText env now rnd n =
     (case credentials env of
        None \<Rightarrow> (False, n)
      | Some (consumerKey, consumerSecret, accessToken, accessTokenSecret) \<Rightarrow>
          (case signedRequest hmac tweetText consumerKey consumerSecret accessToken
                  accessTokenSecret now rnd of
             None \<Rightarrow> (False, n)
           | Some req \<Rightarrow>
               (case fetch req n of
                  (FetchRejected, n1) \<Rightarrow> (False, n1)
                | (Fetched r, n1) \<Rightarrow> (resp_ok r \<and> resp_json r \<noteq> None, n1))))"

text \<open>
  \<open>postTweet\<close>: both callees catch what they throw and return a boolean, and escaping a
  string throws nothing, so the \<open>catch\<close> of \<open>postTweet\<close> itself is never entered and the
  result is always a value.
\<close>

definition postTweet ::
  "(nat list \<Rightarrow> nat list \<Rightarrow> 8 word list) \<Rightarrow> 'n fetch \<Rightarrow> jsstring \<Rightarrow> jsstring \<Rightarrow> Env option
     \<Rightarrow> int \<Rightarrow> 8 word list \<Rightarrow> 'n \<Rightarrow> bool \<times> 'n" where
  "postTweet hmac fetch content telegramPrefix env now rnd n =
     (case (if truthy (getenv env TWITTER_CONSUMER_KEY)
            then postToTwitter hmac fetch content env now rnd n else (False, n)) of
        (twitterResult, n1) \<Rightarrow>
          (case sendTelegramMessage fetch (escapeTelegramMarkdown content) telegramPrefix env n1 of
             (telegramResult, n2) \<Rightarrow> (twitterResult \<or> telegramResult, n2)))"

text \<open>
  For concrete runs: a world that records the requests and accepts them, a stand-in for
  HMAC-SHA1 that returns twenty zero bytes (no property below depends on the value of a
  signature), and an environment with every credential.
\<close>

definition recording_fetch :: "request list fetch" where
  "recording_fetch req n = (Fetched (Response True 200 (Some JNull)), req # n)"

definition zero_hmac :: "nat list \<Rightarrow> nat list \<Rightarrow> 8 word list" where
  "zero_hmac k m = [0, 0, 0, 0, 0, 0, 0, 0, 0, 0, 0, 0, 0, 0, 0, 0, 0, 0, 0, 0]"

definition test_env :: Env where
  "test_env =
     \<lparr>OPENAI_API_KEY = None, OPENAI_MODEL = None,
      TG_BOT_TOKEN = Some (str ''T''), TG_CHAT_ID = Some (str ''42''),
      TWITTER_CONSUMER_KEY = Some (str ''ck''), TWITTER_CONSUMER_SECRET = Some (str ''cs''),
      TWITTER_ACCESS_TOKEN = Some (str ''at''), TWITTER_ACCESS_SECRET = Some (str ''as'')\<rparr>"

section \<open>The signer as the specification words it\<close>

text \<open>
  The base string as the specification words it: the \<open>key=value\<close> pairs, sorted by key
  and joined with an ampersand, percent-encoded as a whole (\<open>claimed_base_string\<close>);
  and the same with every value percent-encoded inside its pair first
  (\<open>amended_base_string\<close>).
\<close>

definition raw_item :: "jsstring \<times> jsstring \<Rightarrow> jsstring" where
  "raw_item kv = fst kv @ str ''='' @ snd kv"

definition encoded_item :: "jsstring \<times> jsstring \<Rightarrow> jsstring option" where
  "encoded_item kv = map_option (\<lambda>e. fst kv @ str ''='' @ e) (encodeURIComponent (snd kv))"

definition claimed_base_string :: "jsstring \<Rightarrow> params \<Rightarrow> jsstring option" where
  "claimed_base_string u ps =
     (case encodeURIComponent u of
        None \<Rightarrow> None
      | Some eu \<Rightarrow>
          map_option (\<lambda>ep. join (str ''&'') [str ''POST'', eu, ep])
            (encodeURIComponent (join (str ''&'') (map raw_item (sort_key fst ps)))))"

definition amended_base_string :: "jsstring \<Rightarrow> params \<Rightarrow> jsstring option" where
  "amended_base_string u ps =
     (case encodeURIComponent u of
        None \<Rightarrow> None
      | Some eu \<Rightarrow>
          (case sequence (map encoded_item (sort_key fst ps)) of
             None \<Rightarrow> None
           | Some items \<Rightarrow>
               map_option (\<lambda>ep. join (str ''&'') [str ''POST'', eu, ep])
                 (encodeURIComponent (join (str ''&'') items))))"

text \<open>A parameter object for concrete runs: a consumer key with a reserved character.\<close>

definition sample_rnd :: "8 word list" where
  "sample_rnd = [0, 1, 2, 3, 4, 5, 6, 7, 8, 9, 10, 11, 12, 13, 14, 15,
                 16, 17, 18, 19, 20, 21, 22, 23, 24, 25, 26, 27, 28, 29, 30, 31]"

definition sample_params :: params where
  "sample_params = oauthParams (str ''k+1'') (str ''at'') 1700000000123 sample_rnd"

text \<open>
  A header item, \<open>percent-encode(key)="percent-encode(value)"\<close>, and the header as the
  specification words it: the items of all parameters, the signature among them, sorted
  by key and joined with commas.
\<close>

definition header_item :: "jsstring \<times> jsstring \<Rightarrow> jsstring option" where
  "header_item kv =
     (case encodeURIComponent (fst kv) of
        None \<Rightarrow> None
      | Some ek \<Rightarrow>
          map_option (\<lambda>ev. ek @ str ''=\"'' @ ev @ str ''\"'') (encodeURIComponent (snd kv)))"

definition claimed_header :: "params \<Rightarrow> jsstring option" where
  "claimed_header ps =
     map_option (\<lambda>items. str ''OAuth '' @ join (str '','') items)
       (sequence (map header_item (sort_key fst ps)))"

text \<open>
  The signature \<open>zero_hmac\<close> yields in base64, the request signed with it, its
  authorization header, and the header the specification's wording would give.
\<close>

definition zero_signature :: jsstring where
  "zero_signature = str ''AAAAAAAAAAAAAAAAAAAAAAAAAAA=''"

definition sample_request :: "request option" where
  "sample_request =
     signedRequest zero_hmac (str ''hi'') (str ''k+1'') (str ''cs'') (str ''at'') (str ''as'')
       1700000000123 sample_rnd"

definition sample_header :: jsstring where
  "sample_header = str ''OAuth oauth_consumer_key=\"k%2B1\", oauth_nonce=\"000102030405060708090a0b0c0d0e0f\", oauth_signature_method=\"HMAC-SHA1\", oauth_timestamp=\"1700000000\", oauth_token=\"at\", oauth_version=\"1.0\", oauth_signature=\"AAAAAAAAAAAAAAAAAAAAAAAAAAA%3D\"''"

definition sample_claimed_header :: jsstring where
  "sample_claimed_header = str ''OAuth oauth_consumer_key=\"k%2B1\",oauth_nonce=\"000102030405060708090a0b0c0d0e0f\",oauth_signature=\"AAAAAAAAAAAAAAAAAAAAAAAAAAA%3D\",oauth_signature_method=\"HMAC-SHA1\",oauth_timestamp=\"1700000000\",oauth_token=\"at\",oauth_version=\"1.0\"''"

text \<open>
  An environment with one Twitter credential missing, and the request the chat surface
  then sends for the text \<open>a.b\<close> with the prefix \<open>p: \<close>.
\<close>

definition partial_env :: Env where
  "partial_env = test_env\<lparr>TWITTER_ACCESS_SECRET := None\<rparr>"

definition telegram_request :: request where
  "telegram_request =
     \<lparr>req_url = str ''https://api.telegram.org/botT/sendMessage'',
      req_method = str ''POST'',
      req_headers = [(str ''Content-Type'', str ''application/json'')],
      req_body = JObject
        [(str ''chat_id'', JString (str ''42'')),
         (str ''text'', JString (str ''p: a'' @ [0x5C] @ str ''.b'')),
         (str ''parse_mode'', JString (str ''MarkdownV2'')),
         (str ''disable_web_page_preview'', JBool True),
         (str ''disable_notification'', JBool True)]\<rparr>"

section \<open>\<open>JSON.parse\<close>\<close>

text \<open>
  \<open>JSON.parse\<close> is a function of the platform. It is modelled after the JSON grammar it
  implements: the text is cut into tokens, and the tokens are read by a machine that
  keeps the open arrays and objects on a stack. A text is accepted when it is white
  space, one value, white space.
\<close>

text \<open>
  The errors the services meet: \<open>JSON.parse\<close> throws a SyntaxError on a text that is not
  JSON, a property read on \<open>null\<close> and a call of a value that is no function throw a
  TypeError.
\<close>

datatype js_error = SyntaxError | TypeError

datatype token =
    TLBrace | TRBrace | TLBracket | TRBracket | TComma | TColon
  | TString jsstring | TNumber jsstring | TTrue | TFalse | TNull

definition json_ws :: "16 word \<Rightarrow> bool" where
  "json_ws c = (c = 0x20 \<or> c = 0x09 \<or> c = 0x0A \<or> c = 0x0D)"

definition digit :: "16 word \<Rightarrow> bool" where
  "digit c = (0x30 \<le> c \<and> c \<le> 0x39)"

definition hex_value :: "16 word \<Rightarrow> nat option" where
  "hex_value c =
     (if 0x30 \<le> c \<and> c \<le> 0x39 then Some (unat c - 0x30)
      else if 0x41 \<le> c \<and> c \<le> 0x46 then Some (unat c - 0x37)
      else if 0x61 \<le> c \<and> c \<le> 0x66 then Some (unat c - 0x57)
      else None)"

text \<open>The code unit of a \<open>\uXXXX\<close> escape, from its four hexadecimal digits.\<close>

definition hex4 :: "16 word \<Rightarrow> 16 word \<Rightarrow> 16 word \<Rightarrow> 16 word \<Rightarrow> 16 word option" where
  "hex4 a b c d =
     (case (hex_value a, hex_value b, hex_value c, hex_value d) of
        (Some x, Some y, Some z, Some w) \<Rightarrow> Some (of_nat (((x * 16 + y) * 16 + z) * 16 + w))
      | _ \<Rightarrow> None)"

text \<open>The character a one-letter escape stands for: \<open>\" \\ \/ \b \f \n \r \t\<close>.\<close>

definition escape_char :: "16 word \<Rightarrow> 16 word option" where
  "escape_char e =
     (if e = 0x22 then Some 0x22 else if e = 0x5C then Some 0x5C else if e = 0x2F then Some 0x2F
      else if e = 0x62 then Some 0x08 else if e = 0x66 then Some 0x0C
      else if e = 0x6E then Some 0x0A else if e = 0x72 then Some 0x0D
      else if e = 0x74 then Some 0x09 else None)"

text \<open>
  The rest of a string literal after its opening quote: the string's value (collected in
  reverse in \<open>acc\<close>) and the text after the closing quote.
\<close>

fun lex_string :: "jsstring \<Rightarrow> jsstring \<Rightarrow> (jsstring \<times> jsstring) option" where
  "lex_string [] acc = None"
| "lex_string (c # cs) acc =
     (if c = 0x22 then Some (rev acc, cs)
      else if c = 0x5C then
        (case cs of
           [] \<Rightarrow> None
         | e # es \<Rightarrow>
             if e = 0x75 then
               (case es of
                  a # b # c' # d # rest \<Rightarrow>
                    (case hex4 a b c' d of
                       None \<Rightarrow> None
                     | Some u \<Rightarrow> lex_string rest (u # acc))
                | _ \<Rightarrow> None)
             else
               (case escape_char e of
                  None \<Rightarrow> None
                | Some x \<Rightarrow> lex_string es (x # acc)))
      else if c < 0x20 then None
      else lex_string cs (c # acc))"

text \<open>
  A number literal at the head of the text: an optional minus, \<open>0\<close> or a digit from 1 to
  9 followed by digits, an optional fraction, an optional exponent. The result is the
  literal and the text after it.
\<close>

definition lex_int :: "jsstring \<Rightarrow> (jsstring \<times> jsstring) option" where
  "lex_int cs =
     (case cs of
        [] \<Rightarrow> None
      | d # rest \<Rightarrow>
          if d = 0x30 then Some ([d], rest)
          else if digit d then Some (d # takeWhile digit rest, dropWhile digit rest)
          else None)"

definition lex_frac :: "jsstring \<Rightarrow> (jsstring \<times> jsstring) option" where
  "lex_frac cs =
     (case cs of
        [] \<Rightarrow> Some ([], cs)
      | p # rest \<Rightarrow>
          if p = 0x2E then
            (if takeWhile digit rest = [] then None
             else Some (p # takeWhile digit rest, dropWhile digit rest))
          else Some ([], cs))"

definition lex_sign :: "jsstring \<Rightarrow> jsstring \<times> jsstring" where
  "lex_sign cs =
     (case cs of
        [] \<Rightarrow> ([], cs)
      | s # rest \<Rightarrow> if s = 0x2B \<or> s = 0x2D then ([s], rest) else ([], cs))"

definition lex_exp :: "jsstring \<Rightarrow> (jsstring \<times> jsstring) option" where
  "lex_exp cs =
     (case cs of
        [] \<Rightarrow> Some ([], cs)
      | e # rest \<Rightarrow>
          if e = 0x65 \<or> e = 0x45 then
            (case lex_sign rest of
               (sg, r) \<Rightarrow>
                 if takeWhile digit r = [] then None
                 else Some (e # sg @ takeWhile digit r, dropWhile digit r))
          else Some ([], cs))"

definition lex_number :: "jsstring \<Rightarrow> (jsstring \<times> jsstring) option" where
  "lex_number cs =
     (case (case cs of
              [] \<Rightarrow> ([], cs)
            | m # rest \<Rightarrow> if m = 0x2D then ([m], rest) else ([], cs)) of
        (neg, r0) \<Rightarrow>
          (case lex_int r0 of
             None \<Rightarrow> None
           | Some (i, r1) \<Rightarrow>
               (case lex_frac r1 of
                  None \<Rightarrow> None
                | Some (f, r2) \<Rightarrow>
                    (case lex_exp r2 of
                       None \<Rightarrow> None
                     | Some (e, r3) \<Rightarrow> Some (neg @ i @ f @ e, r3)))))"

lemma lex_string_shorter:
  "lex_string cs acc = Some (s, rest) \<Longrightarrow> length rest < length cs"
proof (induction cs acc rule: lex_string.induct)
  case (1 acc)
  then show ?case by simp
next
  case (2 c cs acc)
  then show ?case
    by (auto split: if_splits list.splits option.splits) fastforce+
qed

lemma dropWhile_le: "length (dropWhile P xs) \<le> length xs"
  by (induction xs) auto

lemma lex_int_shorter: "lex_int cs = Some (i, rest) \<Longrightarrow> length rest < length cs"
  using dropWhile_le [of digit "tl cs"]
  by (auto simp: lex_int_def split: list.splits if_splits)

lemma lex_frac_shorter: "lex_frac cs = Some (f, rest) \<Longrightarrow> length rest \<le> length cs"
  using dropWhile_le [of digit "tl cs"]
  by (auto simp: lex_frac_def split: list.splits if_splits)

lemma lex_sign_shorter: "lex_sign cs = (sg, rest) \<Longrightarrow> length rest \<le> length cs"
  by (auto simp: lex_sign_def split: list.splits if_splits)

lemma lex_exp_shorter: "lex_exp cs = Some (e, rest) \<Longrightarrow> length rest \<le> length cs"
proof -
  assume a: "lex_exp cs = Some (e, rest)"
  show ?thesis
  proof (cases cs)
    case Nil
    with a show ?thesis by (simp add: lex_exp_def)
  next
    case (Cons x xs)
    obtain sg r where s: "lex_sign xs = (sg, r)" by (cases "lex_sign xs") auto
    from lex_sign_shorter [OF s] dropWhile_le [of digit r]
    have "length (dropWhile digit r) \<le> length xs" by simp
    with a Cons s show ?thesis
      by (auto simp: lex_exp_def split: if_splits)
  qed
qed

lemma lex_number_shorter:
  assumes "lex_number cs = Some (n, rest)"
  shows "length rest < length cs"
proof -
  obtain neg r0 where m: "(case cs of [] \<Rightarrow> ([], cs)
            | m # rest \<Rightarrow> if m = 0x2D then ([m], rest) else ([], cs)) = (neg, r0)"
    by (cases "(case cs of [] \<Rightarrow> ([], cs)
            | m # rest \<Rightarrow> if m = 0x2D then ([m], rest) else ([], cs))") auto
  then have l0: "length r0 \<le> length cs" by (auto split: list.splits if_splits)
  from assms m obtain i r1 where i: "lex_int r0 = Some (i, r1)"
    by (auto simp: lex_number_def split: option.splits)
  from assms m i obtain f r2 where f: "lex_frac r1 = Some (f, r2)"
    by (auto simp: lex_number_def split: option.splits)
  from assms m i f obtain e where e: "lex_exp r2 = Some (e, rest)"
    by (auto simp: lex_number_def split: option.splits)
  from lex_int_shorter [OF i] lex_frac_shorter [OF f] lex_exp_shorter [OF e] l0
  show ?thesis by simp
qed

text \<open>The tokens of a text; \<open>None\<close> when a character starts no token.\<close>

function lex :: "jsstring \<Rightarrow> token list option" where
  "lex [] = Some []"
| "lex (c # cs) =
     (if json_ws c then lex cs
      else if c = 0x7B then map_option (\<lambda>ts. TLBrace # ts) (lex cs)
      else if c = 0x7D then map_option (\<lambda>ts. TRBrace # ts) (lex cs)
      else if c = 0x5B then map_option (\<lambda>ts. TLBracket # ts) (lex cs)
      else if c = 0x5D then map_option (\<lambda>ts. TRBracket # ts) (lex cs)
      else if c = 0x2C then map_option (\<lambda>ts. TComma # ts) (lex cs)
      else if c = 0x3A then map_option (\<lambda>ts. TColon # ts) (lex cs)
      else if c = 0x22 then
        (case lex_string cs [] of
           None \<Rightarrow> None
         | Some (s, rest) \<Rightarrow> map_option (\<lambda>ts. TString s # ts) (lex rest))
      else if c = 0x2D \<or> digit c then
        (case lex_number (c # cs) of
           None \<Rightarrow> None
         | Some (n, rest) \<Rightarrow> map_option (\<lambda>ts. TNumber n # ts) (lex rest))
      else if c = 0x74 \<and> take 3 cs = str ''rue'' then map_option (\<lambda>ts. TTrue # ts) (lex (drop 3 cs))
      else if c = 0x66 \<and> take 4 cs = str ''alse'' then map_option (\<lambda>ts. TFalse # ts) (lex (drop 4 cs))
      else if c = 0x6E \<and> take 3 cs = str ''ull'' then map_option (\<lambda>ts. TNull # ts) (lex (drop 3 cs))
      else None)"
  by pat_completeness auto
termination
proof (relation "measure length", goal_cases)
  case 1
  show ?case by simp
next
  case (9 c cs x2 x y)
  then have "lex_string cs [] = Some (x, y)" by simp
  from lex_string_shorter [OF this] show ?case by simp
next
  case (10 c cs x2 x y)
  then have "lex_number (c # cs) = Some (x, y)" by simp
  from lex_number_shorter [OF this] show ?case by simp
qed simp_all

text \<open>
  The parser reads the tokens one by one. It keeps the containers that are still open:
  an array with its elements so far (last first), an object with its members so far
  (last first) and the key whose value is being read.
\<close>

datatype frame = InArray "json list" | InObject "(jsstring \<times> json) list" jsstring

datatype pstate =
    Value "frame list"                                    \<comment> \<open>a value must follow\<close>
  | ArrayStart "frame list"                               \<comment> \<open>after [: a value or ]\<close>
  | AfterElement "json list" "frame list"                 \<comment> \<open>after an element: , or ]\<close>
  | ObjectStart "frame list"                              \<comment> \<open>after {: a key or }\<close>
  | Key "(jsstring \<times> json) list" "frame list"             \<comment> \<open>after , in an object: a key\<close>
  | Colon "(jsstring \<times> json) list" jsstring "frame list"  \<comment> \<open>after a key: the colon\<close>
  | AfterMember "(jsstring \<times> json) list" "frame list"     \<comment> \<open>after a member: , or }\<close>
  | Done json                                             \<comment> \<open>the text's value is complete\<close>

fun deliver :: "json \<Rightarrow> frame list \<Rightarrow> pstate" where
  "deliver v [] = Done v"
| "deliver v (InArray vs # st) = AfterElement (v # vs) st"
| "deliver v (InObject kvs k # st) = AfterMember ((k, v) # kvs) st"

fun start_value :: "frame list \<Rightarrow> token \<Rightarrow> pstate option" where
  "start_value st (TString s) = Some (deliver (JString s) st)"
| "start_value st (TNumber n) = Some (deliver (JNumber n) st)"
| "start_value st TTrue = Some (deliver (JBool True) st)"
| "start_value st TFalse = Some (deliver (JBool False) st)"
| "start_value st TNull = Some (deliver JNull st)"
| "start_value st TLBracket = Some (ArrayStart st)"
| "start_value st TLBrace = Some (ObjectStart st)"
| "start_value st _ = None"

fun step :: "pstate \<Rightarrow> token \<Rightarrow> pstate option" where
  "step (Value st) t = start_value st t"
| "step (ArrayStart st) t =
     (if t = TRBracket then Some (deliver (JArray []) st) else start_value (InArray [] # st) t)"
| "step (AfterElement vs st) t =
     (if t = TComma then Some (Value (InArray vs # st))
      else if t = TRBracket then Some (deliver (JArray (rev vs)) st)
      else None)"
| "step (ObjectStart st) t =
     (case t of
        TRBrace \<Rightarrow> Some (deliver (JObject []) st)
      | TString k \<Rightarrow> Some (Colon [] k st)
      | _ \<Rightarrow> None)"
| "step (Key kvs st) t = (case t of TString k \<Rightarrow> Some (Colon kvs k st) | _ \<Rightarrow> None)"
| "step (Colon kvs k st) t = (if t = TColon then Some (Value (InObject kvs k # st)) else None)"
| "step (AfterMember kvs st) t =
     (if t = TComma then Some (Key kvs st)
      else if t = TRBrace then Some (deliver (JObject (rev kvs)) st)
      else None)"
| "step (Done v) t = None"

fun run :: "pstate \<Rightarrow> token list \<Rightarrow> json option" where
  "run p [] = (case p of Done v \<Rightarrow> Some v | _ \<Rightarrow> None)"
| "run p (t # ts) = (case step p t of None \<Rightarrow> None | Some p' \<Rightarrow> run p' ts)"

definition JSON_parse :: "jsstring \<Rightarrow> js_error + json" where
  "JSON_parse text =
     (case lex text of
        None \<Rightarrow> Inl SyntaxError
      | Some ts \<Rightarrow> (case run (Value []) ts of None \<Rightarrow> Inl SyntaxError | Some v \<Rightarrow> Inr v))"

section \<open>Parsing the model's reply (\<open>parseTweet\<close>)\<close>

text \<open>
  \<open>res.replace(/```json|```/g, "")\<close>: from left to right, every \<open>```json\<close> and
  every other \<open>```\<close> is removed.
\<close>

function strip_fences :: "jsstring \<Rightarrow> jsstring" where
  "strip_fences [] = []"
| "strip_fences (c # cs) =
     (if c = 0x60 \<and> take 6 cs = str ''``json'' then strip_fences (drop 6 cs)
      else if c = 0x60 \<and> take 2 cs = str ''``'' then strip_fences (drop 2 cs)
      else c # strip_fences cs)"
  by pat_completeness auto
termination
  by (relation "measure length") auto

text \<open>\<open>trim()\<close>: white space and line terminators are removed at both ends.\<close>

definition js_space :: "16 word \<Rightarrow> bool" where
  "js_space c =
     (c \<in> set [0x09, 0x0A, 0x0B, 0x0C, 0x0D, 0x20, 0xA0, 0x1680, 0x2028, 0x2029, 0x202F,
                0x205F, 0x3000, 0xFEFF]
      \<or> (0x2000 \<le> c \<and> c \<le> 0x200A))"

definition trim :: "jsstring \<Rightarrow> jsstring" where
  "trim s = rev (dropWhile js_space (rev (dropWhile js_space s)))"

text \<open>
  The property of a parsed value under a key: an object's last member of that key,
  \<open>undefined\<close> (\<open>None\<close>) when it has none and for every other value but \<open>null\<close>, on
  which the read throws. (Neither \<open>tweet\<close> nor any key but \<open>toString\<close> and the like is
  inherited from a prototype.)
\<close>

definition own_property :: "json \<Rightarrow> jsstring \<Rightarrow> json option" where
  "own_property v key = (case v of JObject kvs \<Rightarrow> map_of (rev kvs) key | _ \<Rightarrow> None)"

definition get_tweet :: "json \<Rightarrow> js_error + json option" where
  "get_tweet v = (if v = JNull then Inl TypeError else Inr (own_property v (str ''tweet'')))"

text \<open>
  The text of a number. A literal that is an integer of at most 15 digits, written
  without sign, fraction, exponent or leading zero, or such a literal other than \<open>0\<close>
  with a minus, is a Number exactly, and its text is the literal. For every other
  literal the text depends on the rounding to a double: it is left to \<open>float_text\<close>,
  the platform's \<open>String(Number(literal))\<close>.
\<close>

definition plain_integer :: "jsstring \<Rightarrow> bool" where
  "plain_integer n =
     (n \<noteq> [] \<and> length n \<le> 15 \<and> list_all digit n \<and> (hd n \<noteq> 0x30 \<or> n = [0x30]))"

definition exact_integer :: "jsstring \<Rightarrow> bool" where
  "exact_integer n =
     (plain_integer n \<or> (n \<noteq> [] \<and> hd n = 0x2D \<and> plain_integer (tl n) \<and> tl n \<noteq> [0x30]))"

definition Number_toString :: "(jsstring \<Rightarrow> jsstring) \<Rightarrow> jsstring \<Rightarrow> jsstring" where
  "Number_toString float_text n = (if exact_integer n then n else float_text n)"

text \<open>
  Whether a value counts as true in \<open>parsedRes.tweet || ...\<close>; a number does unless it is
  zero, that is, unless its text is \<open>0\<close>.
\<close>

definition js_truthy :: "(jsstring \<Rightarrow> jsstring) \<Rightarrow> json option \<Rightarrow> bool" where
  "js_truthy float_text v =
     (case v of
        None \<Rightarrow> False
      | Some JNull \<Rightarrow> False
      | Some (JBool b) \<Rightarrow> b
      | Some (JNumber n) \<Rightarrow> Number_toString float_text n \<noteq> str ''0''
      | Some (JString s) \<Rightarrow> s \<noteq> []
      | Some (JArray vs) \<Rightarrow> True
      | Some (JObject kvs) \<Rightarrow> True)"

text \<open>
  The string of a value, as \<open>toString()\<close> on it and as the elements of an array are
  joined. An object that has a member \<open>toString\<close> of its own has no callable method
  (a parsed value is never a function): the conversion throws. An array joins the
  strings of its elements with commas, \<open>null\<close> giving the empty string.
\<close>

fun all_right :: "(js_error + 'a) list \<Rightarrow> js_error + 'a list" where
  "all_right [] = Inr []"
| "all_right (x # xs) =
     (case x of
        Inl e \<Rightarrow> Inl e
      | Inr y \<Rightarrow> (case all_right xs of Inl e \<Rightarrow> Inl e | Inr ys \<Rightarrow> Inr (y # ys)))"

fun to_string :: "(jsstring \<Rightarrow> jsstring) \<Rightarrow> json \<Rightarrow> js_error + jsstring" where
  "to_string float_text JNull = Inr (str ''null'')"
| "to_string float_text (JBool b) = Inr (if b then str ''true'' else str ''false'')"
| "to_string float_text (JNumber n) = Inr (Number_toString float_text n)"
| "to_string float_text (JString s) = Inr s"
| "to_string float_text (JArray vs) =
     (case all_right (map (\<lambda>v. if v = JNull then Inr [] else to_string float_text v) vs) of
        Inl e \<Rightarrow> Inl e
      | Inr items \<Rightarrow> Inr (join (str '','') items))"
| "to_string float_text (JObject kvs) =
     (if map_of (rev kvs) (str ''toString'') \<noteq> None then Inl TypeError
      else Inr (str ''[object Object]''))"

text \<open>
  The first attempt of \<open>parseTweet\<close> (the outer \<open>try\<close> block) and the second (the inner
  one). A returned value is a parsed value or \<open>undefined\<close> (\<open>None\<close>).
\<close>

definition first_attempt :: "(jsstring \<Rightarrow> jsstring) \<Rightarrow> jsstring \<Rightarrow> js_error + json option" where
  "first_attempt float_text res =
     (case JSON_parse res of
        Inl e \<Rightarrow> Inl e
      | Inr parsedRes \<Rightarrow>
          (case get_tweet parsedRes of
             Inl e \<Rightarrow> Inl e
           | Inr tweet \<Rightarrow>
               if js_truthy float_text tweet then Inr tweet
               else (case to_string float_text parsedRes of
                       Inl e \<Rightarrow> Inl e
                     | Inr s \<Rightarrow> Inr (Some (JString s)))))"

definition second_attempt :: "jsstring \<Rightarrow> js_error + json option" where
  "second_attempt res =
     (case JSON_parse (trim (strip_fences res)) of
        Inl e \<Rightarrow> Inl e
      | Inr parsed \<Rightarrow> get_tweet parsed)"

definition parseTweet :: "(jsstring \<Rightarrow> jsstring) \<Rightarrow> jsstring \<Rightarrow> json option" where
  "parseTweet float_text res =
     (case first_attempt float_text res of
        Inr tweet \<Rightarrow> tweet
      | Inl e \<Rightarrow> (case second_attempt res of Inr tweet \<Rightarrow> tweet | Inl e' \<Rightarrow> None))"

definition fenced :: "jsstring \<Rightarrow> jsstring \<Rightarrow> jsstring" where
  "fenced tag body = str ''```'' @ tag @ [0x0A] @ body @ [0x0A] @ str ''```''"

section \<open>Properties of the scheduler\<close>

lemma executeDueJobs_length:
  "length (fst (executeDueJobs env now jobs w)) = length jobs"
proof (induction jobs arbitrary: w)
  case Nil
  show ?case by simp
next
  case (Cons job rest)
  have rec: "length (fst (executeDueJobs env now rest v)) = length rest" for v
    by (rule Cons.IH)
  show ?case
  proof (cases "handler job env w")
    case (Pair r w1)
    show ?thesis
      using rec [of w] rec [of w1] Pair
      by (cases r) (auto split: prod.splits)
  qed
qed

lemma executeDueJobs_append:
  "executeDueJobs env now (xs @ ys) w =
     (case executeDueJobs env now xs w of
        (xs', w1, out1) \<Rightarrow>
          (case executeDueJobs env now ys w1 of
             (ys', w2, out2) \<Rightarrow> (xs' @ ys', w2, out1 @ out2)))"
  by (induction xs arbitrary: w) (auto split: prod.splits settled.splits)

lemma executeDueJobs_single:
  "fst (executeDueJobs env now [job] w) = [tick_job env now w job]"
  by (auto simp: tick_job_def split: prod.splits settled.splits)

lemma executeDueJobs_nth:
  assumes "i < length jobs"
  shows "fst (executeDueJobs env now jobs w) ! i
           = tick_job env now (world_before env now jobs w i) (jobs ! i)"
proof -
  have split: "jobs = take i jobs @ [jobs ! i] @ drop (Suc i) jobs"
    using assms by (simp add: id_take_nth_drop)
  obtain xs' w1 o1 where pre: "executeDueJobs env now (take i jobs) w = (xs', w1, o1)"
    by (cases "executeDueJobs env now (take i jobs) w") auto
  have len: "length xs' = i"
    using executeDueJobs_length [of env now "take i jobs" w] pre assms by simp
  obtain j' w2 o2 where one: "executeDueJobs env now [jobs ! i] w1 = (j', w2, o2)"
    by (cases "executeDueJobs env now [jobs ! i] w1") auto
  have j': "j' = [tick_job env now w1 (jobs ! i)]"
    using executeDueJobs_single [of env now "jobs ! i" w1] one by simp
  obtain zs' w3 o3 where post: "executeDueJobs env now (drop (Suc i) jobs) w2 = (zs', w3, o3)"
    by (cases "executeDueJobs env now (drop (Suc i) jobs) w2") auto
  have "executeDueJobs env now (take i jobs @ [jobs ! i] @ drop (Suc i) jobs) w
          = (xs' @ j' @ zs', w3, o1 @ o2 @ o3)"
    by (simp only: executeDueJobs_append pre one post prod.case)
  then have "fst (executeDueJobs env now jobs w) = xs' @ j' @ zs'"
    using split by simp
  then show ?thesis
    using len j' pre by (simp add: world_before_def nth_append)
qed

lemma executeDueJobs_single_world:
  "fst (snd (executeDueJobs env now [job] w))
     = (if now - lastRun job \<ge> interval job then snd (handler job env w) else w)"
  by (auto split: prod.splits settled.splits)

lemma world_before_Suc:
  assumes "i < length jobs"
  shows "world_before env now jobs w (Suc i)
     = (if now - lastRun (jobs ! i) \<ge> interval (jobs ! i)
        then snd (handler (jobs ! i) env (world_before env now jobs w i))
        else world_before env now jobs w i)"
proof -
  have t: "take (Suc i) jobs = take i jobs @ [jobs ! i]"
    using assms by (simp add: take_Suc_conv_app_nth)
  obtain xs' w1 o1 where pre: "executeDueJobs env now (take i jobs) w = (xs', w1, o1)"
    by (cases "executeDueJobs env now (take i jobs) w") auto
  obtain j' w2 o2 where one: "executeDueJobs env now [jobs ! i] w1 = (j', w2, o2)"
    by (cases "executeDueJobs env now [jobs ! i] w1") auto
  have "executeDueJobs env now (take i jobs @ [jobs ! i]) w = (xs' @ j', w2, o1 @ o2)"
    by (simp only: executeDueJobs_append pre one prod.case)
  then have "world_before env now jobs w (Suc i) = w2"
    by (simp add: world_before_def t)
  moreover have "w2 = (if now - lastRun (jobs ! i) \<ge> interval (jobs ! i)
        then snd (handler (jobs ! i) env w1) else w1)"
    using executeDueJobs_single_world [of env now "jobs ! i" w1] one by simp
  moreover have "world_before env now jobs w i = w1"
    using pre by (simp add: world_before_def)
  ultimately show ?thesis by simp
qed

text \<open>
  C1 (as stated): on a tick at which a job is due, the handler is invoked and the job's
  \<open>lastRun\<close> is advanced to the tick time whether the handler returns or throws.
  This fails: a due job whose handler throws is invoked (the world counts one call, the
  console shows the error line), and its \<open>lastRun\<close> stays at 0 instead of the tick time 1000.
\<close>

theorem executeDueJobs_throwing_handler_counterexample:
  "1000 - lastRun failing_job \<ge> interval failing_job
   \<and> executeDueJobs () 1000 [failing_job] 0
       = ([failing_job], 1, [Executing (str ''bad''), ErrorIn (str ''bad'')])
   \<and> lastRun (hd (fst (executeDueJobs () 1000 [failing_job] 0))) = 0
   \<and> lastRun (hd (fst (executeDueJobs () 1000 [failing_job] 0))) \<noteq> 1000"
  by (simp add: failing_job_def failing_handler_def)

text \<open>
  C1 (amended): a tick keeps the number and order of the jobs, and the job at every
  position \<open>i\<close> ends as follows. If it is due (\<open>now - lastRun \<ge> interval\<close>), its handler is
  invoked in the world left by the jobs before it; when the handler returns normally the
  job's \<open>lastRun\<close> becomes the tick time, and when it throws the job is left unchanged, so
  it is due again at the next tick. A job that is not due is left unchanged and its
  handler is not invoked: the world passes to the next job as it is, while a due job
  passes on the world its handler left.
\<close>

theorem executeDueJobs_lastRun:
  assumes "i < length jobs"
  shows "length (fst (executeDueJobs env now jobs w)) = length jobs
     \<and> fst (executeDueJobs env now jobs w) ! i
         = (if now - lastRun (jobs ! i) \<ge> interval (jobs ! i)
               \<and> fst (handler (jobs ! i) env (world_before env now jobs w i)) = Fulfilled
            then (jobs ! i)\<lparr>lastRun := now\<rparr> else jobs ! i)
     \<and> world_before env now jobs w (Suc i)
         = (if now - lastRun (jobs ! i) \<ge> interval (jobs ! i)
            then snd (handler (jobs ! i) env (world_before env now jobs w i))
            else world_before env now jobs w i)"
  using executeDueJobs_nth [OF assms, of env now w] executeDueJobs_length [of env now jobs w]
    world_before_Suc [OF assms, of env now w]
  by (simp add: tick_job_def)

theorem executeDueJobs_lastRun_witness:
  "(1::nat) < length [failing_job, good_job]
   \<and> lastRun (fst (executeDueJobs () 1000 [failing_job, good_job] 0) ! 1) = 1000
   \<and> world_before () 1000 [failing_job, good_job] 0 1 = 1
   \<and> world_before () 1000 [failing_job, good_job] 0 2 = 2"
proof -
  have h: "(1::nat) < length [failing_job, good_job]" by simp
  show ?thesis
    using executeDueJobs_lastRun [OF h, of "()" 1000 0]
    by (simp add: world_before_def failing_job_def good_job_def
        failing_handler_def counting_handler_def)
qed

section \<open>Properties of the trending-story selection\<close>

lemma say_simps [simp]:
  "postedStories (say l s) = postedStories s"
  "lastResetTimestamp (say l s) = lastResetTimestamp s"
  "console (say l s) = console s @ [l]"
  "net (say l s) = net s"
  by (simp_all add: say_def)

lemma quiet_refl: "quiet s s"
  by (simp add: quiet_def)

lemma quiet_trans: "quiet s s1 \<Longrightarrow> quiet s1 s2 \<Longrightarrow> quiet s s2"
  by (auto simp: quiet_def)

lemma quiet_say: "l \<noteq> AllPosted \<Longrightarrow> quiet s (say l s)"
  by (simp add: quiet_def)

lemma fetchItem_frame:
  "fetchItem api i s = (v, s1) \<Longrightarrow> postedStories s1 = postedStories s \<and> quiet s s1"
  by (auto simp: fetchItem_def quiet_def split: prod.splits fetched.splits if_splits option.splits)

lemma fetchTopStories_frame:
  "fetchTopStories api s = (ids, s1) \<Longrightarrow> postedStories s1 = postedStories s \<and> quiet s s1"
  by (auto simp: fetchTopStories_def quiet_def split: prod.splits fetched.splits if_splits option.splits)

lemma markStoryAsPosted_quiet: "quiet s (markStoryAsPosted i s)"
  by (simp add: markStoryAsPosted_def quiet_def)

lemma markStoryAsPosted_posted:
  "postedStories (markStoryAsPosted i s)
     = (if i \<in> set (postedStories s) then postedStories s else postedStories s @ [i])"
  by (simp add: markStoryAsPosted_def)

lemma fetchItem_faithful:
  "faithful api \<Longrightarrow> fetchItem api i s = (Some story, s1) \<Longrightarrow> id_hn story = i"
proof -
  assume f: "faithful api" and e: "fetchItem api i s = (Some story, s1)"
  obtain r n where it: "item api i (net s) = (r, n)" by (cases "item api i (net s)") auto
  from f have "case fst (item api i (net s)) of FetchRejected \<Rightarrow> True
            | Fetched r \<Rightarrow> (case resp_json r of Some (Some story) \<Rightarrow> id_hn story = i | _ \<Rightarrow> True)"
    unfolding faithful_def by blast
  with it e show ?thesis
    by (auto simp: fetchItem_def split: fetched.splits if_splits option.splits)
qed

lemma firstPass_quiet: "firstPass api ids s = (r, s') \<Longrightarrow> quiet s s'"
proof (induction ids arbitrary: s)
  case Nil then show ?case by (simp add: quiet_refl)
next
  case (Cons i rest)
  show ?case
  proof (cases "i \<in> set (postedStories s)")
    case True
    with Cons.prems have "firstPass api rest (say (Skipping i) s) = (r, s')" by simp
    from Cons.IH [OF this] quiet_say [of "Skipping i" s] show ?thesis
      by (blast intro: quiet_trans)
  next
    case False
    obtain v s1 where fi: "fetchItem api i s = (v, s1)" by (cases "fetchItem api i s") auto
    from fetchItem_frame [OF fi] have q1: "quiet s s1" by simp
    show ?thesis
    proof (cases "valid_story v")
      case True
      with False fi Cons.prems have "s' = markStoryAsPosted i s1" by simp
      with q1 markStoryAsPosted_quiet [of s1 i] show ?thesis by (blast intro: quiet_trans)
    next
      case inv: False
      with False fi Cons.prems have "firstPass api rest s1 = (r, s')" by simp
      from Cons.IH [OF this] q1 show ?thesis by (blast intro: quiet_trans)
    qed
  qed
qed

lemma firstPass_None_posted:
  "firstPass api ids s = (None, s') \<Longrightarrow> postedStories s' = postedStories s"
proof (induction ids arbitrary: s)
  case Nil then show ?case by simp
next
  case (Cons i rest)
  show ?case
  proof (cases "i \<in> set (postedStories s)")
    case True
    with Cons.prems have "firstPass api rest (say (Skipping i) s) = (None, s')" by simp
    from Cons.IH [OF this] show ?thesis by simp
  next
    case False
    obtain v s1 where fi: "fetchItem api i s = (v, s1)" by (cases "fetchItem api i s") auto
    from fetchItem_frame [OF fi] have p1: "postedStories s1 = postedStories s" by simp
    have nv: "\<not> valid_story v"
    proof
      assume "valid_story v"
      with False fi Cons.prems have "v = None" by simp
      with \<open>valid_story v\<close> show False by (simp add: valid_story_def)
    qed
    with False fi Cons.prems have "firstPass api rest s1 = (None, s')" by simp
    from Cons.IH [OF this] p1 show ?thesis by simp
  qed
qed

lemma firstPass_Some:
  "firstPass api ids s = (Some story, s') \<Longrightarrow>
     \<exists>sid. sid \<in> set ids \<and> sid \<notin> set (postedStories s)
        \<and> postedStories s' = postedStories s @ [sid]
        \<and> (faithful api \<longrightarrow> id_hn story = sid)"
proof (induction ids arbitrary: s)
  case Nil then show ?case by simp
next
  case (Cons i rest)
  show ?case
  proof (cases "i \<in> set (postedStories s)")
    case True
    with Cons.prems have "firstPass api rest (say (Skipping i) s) = (Some story, s')" by simp
    from Cons.IH [OF this] show ?thesis by auto
  next
    case False
    obtain v s1 where fi: "fetchItem api i s = (v, s1)" by (cases "fetchItem api i s") auto
    from fetchItem_frame [OF fi] have p1: "postedStories s1 = postedStories s" by simp
    show ?thesis
    proof (cases "valid_story v")
      case True
      with False fi Cons.prems have v: "v = Some story" and s': "s' = markStoryAsPosted i s1"
        by simp_all
      have "postedStories s' = postedStories s @ [i]"
        using s' p1 False by (simp add: markStoryAsPosted_posted)
      moreover have "faithful api \<longrightarrow> id_hn story = i"
        using fetchItem_faithful fi v by blast
      ultimately show ?thesis using False by auto
    next
      case inv: False
      with False fi Cons.prems have "firstPass api rest s1 = (Some story, s')" by simp
      from Cons.IH [OF this] p1 show ?thesis by auto
    qed
  qed
qed

lemma firstPass_all_posted:
  "set ids \<subseteq> set (postedStories s) \<Longrightarrow> fst (firstPass api ids s) = None"
  by (induction ids arbitrary: s) auto

lemma fallbackPass_frame:
  "fallbackPass api ids s = (r, s') \<Longrightarrow> postedStories s = [] \<Longrightarrow>
     lastResetTimestamp s' = lastResetTimestamp s
     \<and> (\<exists>out. console s' = console s @ out)
     \<and> (case r of None \<Rightarrow> postedStories s' = []
         | Some story \<Rightarrow> \<exists>sid. sid \<in> set ids \<and> postedStories s' = [sid]
              \<and> (faithful api \<longrightarrow> id_hn story = sid))"
proof (induction ids arbitrary: s)
  case Nil then show ?case by simp
next
  case (Cons i rest)
  obtain v s1 where fi: "fetchItem api i s = (v, s1)" by (cases "fetchItem api i s") auto
  from fetchItem_frame [OF fi] have p1: "postedStories s1 = postedStories s" and q1: "quiet s s1"
    by simp_all
  show ?case
  proof (cases "valid_story v")
    case True
    with fi Cons.prems have r: "r = v" and s': "s' = markStoryAsPosted i s1" by simp_all
    from True obtain story where v: "v = Some story" by (cases v) (auto simp: valid_story_def)
    have "postedStories s' = [i]"
      using s' p1 Cons.prems(2) by (simp add: markStoryAsPosted_posted)
    moreover have "faithful api \<longrightarrow> id_hn story = i"
      using fetchItem_faithful fi v by blast
    moreover have "quiet s s'"
      using q1 markStoryAsPosted_quiet [of s1 i] s' by (blast intro: quiet_trans)
    ultimately show ?thesis using r v by (auto simp: quiet_def)
  next
    case False
    with fi Cons.prems have "fallbackPass api rest s1 = (r, s')" by simp
    from Cons.IH [OF this] p1 Cons.prems(2) q1 show ?thesis
      by (auto simp: quiet_def split: option.splits)
  qed
qed

lemma checkAndResetCache_quiet_console:
  "\<exists>out. console (checkAndResetCache now s) = console s @ out \<and> AllPosted \<notin> set out"
  by (simp add: checkAndResetCache_def)

lemma emitted_append: "console s' = console s @ out \<Longrightarrow> emitted s s' = out"
  by (simp add: emitted_def)

text \<open>The result of \<open>fetchTopStory\<close>, by the path it takes.\<close>

lemma fetchTopStory_paths:
  assumes ft: "fetchTopStories api (checkAndResetCache now s) = (ids, s1)"
      and fp: "firstPass api (take 30 ids) s1 = (r, s2)"
  shows "fetchTopStory now api s =
     (if ids = [] then (None, say ErrorTopStory s1)
      else if r \<noteq> None then (r, s2)
      else if postedStories s1 \<noteq> []
           then fallbackPass api (take 10 ids) ((say AllPosted s2)\<lparr>postedStories := []\<rparr>)
           else (None, s2))"
proof -
  have "r = None \<Longrightarrow> postedStories s2 = postedStories s1"
    using firstPass_None_posted fp by blast
  then show ?thesis
    using ft fp by (auto simp: fetchTopStory_def split: option.splits)
qed

lemma fallback_taken_iff_aux:
  assumes ft: "fetchTopStories api (checkAndResetCache now s) = (ids, s1)"
      and fp: "firstPass api (take 30 ids) s1 = (r, s2)"
  shows "fallback_taken now api s \<longleftrightarrow> (ids \<noteq> [] \<and> postedStories s1 \<noteq> [] \<and> r = None)"
proof -
  obtain o0 where o0: "console (checkAndResetCache now s) = console s @ o0" "AllPosted \<notin> set o0"
    using checkAndResetCache_quiet_console by blast
  obtain o1 where o1: "console s1 = console (checkAndResetCache now s) @ o1" "AllPosted \<notin> set o1"
    using fetchTopStories_frame [OF ft] by (auto simp: quiet_def)
  obtain o2 where o2: "console s2 = console s1 @ o2" "AllPosted \<notin> set o2"
    using firstPass_quiet [OF fp] by (auto simp: quiet_def)
  note paths = fetchTopStory_paths [OF ft fp]
  show ?thesis
  proof (cases "ids = []")
    case True
    then have "console (snd (fetchTopStory now api s)) = console s @ (o0 @ o1 @ [ErrorTopStory])"
      using paths o0 o1 by simp
    from emitted_append [OF this] show ?thesis
      using True o0 o1 by (simp add: fallback_taken_def)
  next
    case ne: False
    show ?thesis
    proof (cases "r \<noteq> None \<or> postedStories s1 = []")
      case True
      then have "snd (fetchTopStory now api s) = s2" using paths ne by auto
      then have "console (snd (fetchTopStory now api s)) = console s @ (o0 @ o1 @ o2)"
        using o0 o1 o2 by simp
      from emitted_append [OF this] show ?thesis
        using True o0 o1 o2 ne by (auto simp: fallback_taken_def)
    next
      case False
      let ?s3 = "(say AllPosted s2)\<lparr>postedStories := []\<rparr>"
      obtain r' s' where fb: "fallbackPass api (take 10 ids) ?s3 = (r', s')"
        by (cases "fallbackPass api (take 10 ids) ?s3") auto
      have "fetchTopStory now api s = (r', s')" using paths ne False fb by auto
      moreover obtain o3 where "console s' = console ?s3 @ o3"
        using fallbackPass_frame [OF fb] by auto
      ultimately have "console (snd (fetchTopStory now api s))
          = console s @ (o0 @ o1 @ o2 @ [AllPosted] @ o3)"
        using o0 o1 o2 by simp
      from emitted_append [OF this] show ?thesis
        using False ne by (simp add: fallback_taken_def)
    qed
  qed
qed

lemma scan_start_posted:
  "postedStories (scan_start now api s) = postedStories (checkAndResetCache now s)"
  using fetchTopStories_frame [of api "checkAndResetCache now s"]
  by (cases "fetchTopStories api (checkAndResetCache now s)") (simp add: scan_start_def)


lemma firstPass_append:
  "firstPass api (xs @ ys) s =
     (case firstPass api xs s of
        (Some story, s') \<Rightarrow> (Some story, s')
      | (None, s') \<Rightarrow> firstPass api ys s')"
proof (induction xs arbitrary: s)
  case Nil show ?case by simp
next
  case (Cons i rest)
  show ?case
  proof (cases "i \<in> set (postedStories s)")
    case True then show ?thesis using Cons.IH by simp
  next
    case False
    obtain v s1 where fi: "fetchItem api i s = (v, s1)" by (cases "fetchItem api i s") auto
    show ?thesis
    proof (cases "valid_story v")
      case True
      then obtain story where "v = Some story" by (cases v) (auto simp: valid_story_def)
      with True False fi show ?thesis by simp
    next
      case inv: False
      with False fi show ?thesis using Cons.IH by simp
    qed
  qed
qed

lemma firstPass_single_None:
  "fst (firstPass api [i] s) = None \<longleftrightarrow>
     (i \<in> set (postedStories s) \<or> \<not> valid_story (fst (fetchItem api i s)))"
proof (cases "i \<in> set (postedStories s)")
  case True then show ?thesis by simp
next
  case False
  obtain v s1 where fi: "fetchItem api i s = (v, s1)" by (cases "fetchItem api i s") auto
  show ?thesis
  proof (cases "valid_story v")
    case True
    then obtain story where "v = Some story" by (cases v) (auto simp: valid_story_def)
    with True False fi show ?thesis by simp
  next
    case inv: False
    with False fi show ?thesis by simp
  qed
qed

lemma firstPass_None_iff:
  "fst (firstPass api ids s) = None \<longleftrightarrow> (\<forall>k<length ids. rejected api ids s k)"
proof (induction ids rule: rev_induct)
  case Nil show ?case by simp
next
  case (snoc x xs)
  obtain r s' where fx: "firstPass api xs s = (r, s')" by (cases "firstPass api xs s") auto
  have same: "rejected api (xs @ [x]) s k = rejected api xs s k" if "k < length xs" for k
    using that by (simp add: rejected_def nth_append)
  have last: "rejected api (xs @ [x]) s (length xs)
      = (x \<in> set (postedStories s) \<or> \<not> valid_story (fst (fetchItem api x s')))"
    using fx by (simp add: rejected_def)
  have all: "(\<forall>k<length (xs @ [x]). rejected api (xs @ [x]) s k)
      \<longleftrightarrow> (\<forall>k<length xs. rejected api xs s k) \<and> rejected api (xs @ [x]) s (length xs)"
    using same by (auto simp: less_Suc_eq)
  show ?case
  proof (cases r)
    case None
    then have p: "postedStories s' = postedStories s" using firstPass_None_posted fx by blast
    have "fst (firstPass api (xs @ [x]) s) = fst (firstPass api [x] s')"
      using fx None by (simp add: firstPass_append)
    then have "fst (firstPass api (xs @ [x]) s) = None
        \<longleftrightarrow> (x \<in> set (postedStories s) \<or> \<not> valid_story (fst (fetchItem api x s')))"
      using firstPass_single_None [of api x s'] p by simp
    moreover have "\<forall>k<length xs. rejected api xs s k" using snoc.IH fx None by simp
    ultimately show ?thesis using all last by simp
  next
    case (Some story)
    then have "fst (firstPass api (xs @ [x]) s) \<noteq> None"
      using fx by (simp add: firstPass_append)
    moreover have "\<not> (\<forall>k<length xs. rejected api xs s k)" using snoc.IH fx Some by simp
    ultimately show ?thesis using all by blast
  qed
qed

lemma fallbackPass_append:
  "fallbackPass api (xs @ ys) s =
     (case fallbackPass api xs s of
        (Some story, s') \<Rightarrow> (Some story, s')
      | (None, s') \<Rightarrow> fallbackPass api ys s')"
proof (induction xs arbitrary: s)
  case Nil show ?case by simp
next
  case (Cons i rest)
  obtain v s1 where fi: "fetchItem api i s = (v, s1)" by (cases "fetchItem api i s") auto
  show ?case
  proof (cases "valid_story v")
    case True
    then obtain story where "v = Some story" by (cases v) (auto simp: valid_story_def)
    with True fi show ?thesis by simp
  next
    case False
    with fi show ?thesis using Cons.IH by simp
  qed
qed

lemma fallbackPass_single:
  "fallbackPass api [i] s =
     (if valid_story (fst (fetchItem api i s))
      then (fst (fetchItem api i s), markStoryAsPosted i (snd (fetchItem api i s)))
      else (None, snd (fetchItem api i s)))"
  by (cases "fetchItem api i s") simp

lemma valid_story_Some: "valid_story v \<Longrightarrow> \<exists>story. v = Some story"
  by (cases v) (auto simp: valid_story_def)

lemma fallbackPass_None_iff:
  "fst (fallbackPass api ids s) = None \<longleftrightarrow> (\<forall>k<length ids. unfit api ids s k)"
proof (induction ids rule: rev_induct)
  case Nil show ?case by simp
next
  case (snoc x xs)
  obtain r s' where fx: "fallbackPass api xs s = (r, s')" by (cases "fallbackPass api xs s") auto
  have same: "unfit api (xs @ [x]) s k = unfit api xs s k" if "k < length xs" for k
    using that by (simp add: unfit_def nth_append)
  have last: "unfit api (xs @ [x]) s (length xs) = (\<not> valid_story (fst (fetchItem api x s')))"
    using fx by (simp add: unfit_def)
  have all: "(\<forall>k<length (xs @ [x]). unfit api (xs @ [x]) s k)
      \<longleftrightarrow> (\<forall>k<length xs. unfit api xs s k) \<and> unfit api (xs @ [x]) s (length xs)"
    using same by (auto simp: less_Suc_eq)
  show ?case
  proof (cases r)
    case None
    have "fst (fallbackPass api (xs @ [x]) s) = fst (fallbackPass api [x] s')"
      using fx None by (simp add: fallbackPass_append)
    moreover have "fst (fallbackPass api [x] s') = None
        \<longleftrightarrow> \<not> valid_story (fst (fetchItem api x s'))"
      using valid_story_Some [of "fst (fetchItem api x s')"]
      by (auto simp: fallbackPass_single simp del: fallbackPass.simps)
    moreover have "\<forall>k<length xs. unfit api xs s k" using snoc.IH fx None by simp
    ultimately show ?thesis using all last by simp
  next
    case (Some story)
    then have "fst (fallbackPass api (xs @ [x]) s) \<noteq> None"
      using fx by (simp add: fallbackPass_append)
    moreover have "\<not> (\<forall>k<length xs. unfit api xs s k)" using snoc.IH fx Some by simp
    ultimately show ?thesis using all by blast
  qed
qed

lemma fallbackPass_first_valid:
  assumes k: "k < length ids"
      and before: "\<forall>j<k. unfit api ids s j"
      and here: "\<not> unfit api ids s k"
  shows "fallbackPass api ids s
     = (fst (fetchItem api (ids ! k) (snd (fallbackPass api (take k ids) s))),
        markStoryAsPosted (ids ! k)
          (snd (fetchItem api (ids ! k) (snd (fallbackPass api (take k ids) s)))))"
proof -
  have split: "ids = take k ids @ [ids ! k] @ drop (Suc k) ids"
    using k by (simp add: id_take_nth_drop)
  have "unfit api (take k ids) s j = unfit api ids s j" if "j < k" for j
    using that k by (simp add: unfit_def min_def)
  then have "\<forall>j<length (take k ids). unfit api (take k ids) s j"
    using before k by simp
  then have "fst (fallbackPass api (take k ids) s) = None"
    by (simp only: fallbackPass_None_iff)
  then obtain sk where pre: "fallbackPass api (take k ids) s = (None, sk)"
    by (cases "fallbackPass api (take k ids) s") simp
  then have sk: "snd (fallbackPass api (take k ids) s) = sk" by simp
  obtain v s1 where fi: "fetchItem api (ids ! k) sk = (v, s1)"
    by (cases "fetchItem api (ids ! k) sk") auto
  have v: "valid_story v"
    using here sk fi by (simp add: unfit_def)
  then obtain story where st: "v = Some story"
    using valid_story_Some by blast
  have one: "fallbackPass api ([ids ! k] @ drop (Suc k) ids) sk
      = (Some story, markStoryAsPosted (ids ! k) s1)"
    using v st fi by simp
  have "fallbackPass api (take k ids @ ([ids ! k] @ drop (Suc k) ids)) s
      = (Some story, markStoryAsPosted (ids ! k) s1)"
    unfolding fallbackPass_append [of api "take k ids"] pre using one by simp
  then have "fallbackPass api ids s = (Some story, markStoryAsPosted (ids ! k) s1)"
    using split by simp
  then show ?thesis using sk fi st by simp
qed

lemma fetchTopStory_fallback_eq:
  assumes "fallback_taken now api s"
  shows "fetchTopStory now api s
     = fallbackPass api (take 10 (scan_ids now api s)) (fallback_start now api s)"
proof -
  let ?ids = "scan_ids now api s" and ?s1 = "scan_start now api s"
  have ft: "fetchTopStories api (checkAndResetCache now s) = (?ids, ?s1)"
    by (simp add: scan_ids_def scan_start_def)
  obtain r s2 where fp: "firstPass api (take 30 ?ids) ?s1 = (r, s2)"
    by (cases "firstPass api (take 30 ?ids) ?s1") auto
  have "?ids \<noteq> [] \<and> postedStories ?s1 \<noteq> [] \<and> r = None"
    using fallback_taken_iff_aux [OF ft fp] assms by simp
  then show ?thesis
    using fetchTopStory_paths [OF ft fp] fp by (simp add: fallback_start_def)
qed

text \<open>
  C3 (as stated): the fallback path is taken exactly when every scanned identifier was
  filtered out by the dedup set and the dedup set is non-empty.
  This fails: with the dedup set \<open>[1]\<close> and the ranking \<open>[2]\<close>, where story 2 has no
  URL, the only scanned identifier is not in the dedup set, and the fallback path is
  taken all the same.
\<close>

theorem fallback_taken_counterexample:
  "fallback_taken 5 (fixed_api [2]) (cache [1] 0)
   \<and> postedStories (checkAndResetCache 5 (cache [1] 0)) = [1]
   \<and> scan_ids 5 (fixed_api [2]) (cache [1] 0) = [2]
   \<and> 2 \<notin> set (postedStories (checkAndResetCache 5 (cache [1] 0)))"
  by (simp add: fallback_taken_def emitted_def fetchTopStory_def fetchTopStories_def
      checkAndResetCache_def fixed_api_def cache_def fetchItem_def valid_story_def story_of_def
      say_def scan_ids_def)

text \<open>
  C3 (amended): the fallback path is taken exactly when the ranking is non-empty, the
  dedup set (after the window check) is non-empty, and the first pass rejected every one
  of the up to 30 scanned identifiers: each was in the dedup set, or was fetched and
  found not to be a valid story. In particular it is taken when the ranking is
  non-empty and every scanned identifier is in the dedup set.
  When it is taken, the selection is the re-scan of the first 10 identifiers started
  with the dedup set emptied. The re-scan looks at no dedup set: it returns nothing
  exactly when no fetched item is valid, and otherwise returns the item fetched at the
  first position whose item is valid, and marks that identifier as posted.
\<close>

theorem fallback_taken_iff:
  "(fallback_taken now api s \<longleftrightarrow>
      scan_ids now api s \<noteq> []
      \<and> postedStories (checkAndResetCache now s) \<noteq> []
      \<and> (\<forall>k<length (take 30 (scan_ids now api s)).
            rejected api (take 30 (scan_ids now api s)) (scan_start now api s) k))
   \<and> (scan_ids now api s \<noteq> []
        \<and> set (take 30 (scan_ids now api s)) \<subseteq> set (postedStories (checkAndResetCache now s))
      \<longrightarrow> fallback_taken now api s)
   \<and> (fallback_taken now api s \<longrightarrow>
        postedStories (fallback_start now api s) = []
        \<and> fetchTopStory now api s
            = fallbackPass api (take 10 (scan_ids now api s)) (fallback_start now api s))
   \<and> (fst (fallbackPass api ids t) = None \<longleftrightarrow> (\<forall>k<length ids. unfit api ids t k))
   \<and> (k < length ids \<and> (\<forall>j<k. unfit api ids t j) \<and> \<not> unfit api ids t k \<longrightarrow>
        fallbackPass api ids t
          = (fst (fetchItem api (ids ! k) (snd (fallbackPass api (take k ids) t))),
             markStoryAsPosted (ids ! k)
               (snd (fetchItem api (ids ! k) (snd (fallbackPass api (take k ids) t))))))"
proof -
  let ?ids = "scan_ids now api s" and ?s1 = "scan_start now api s"
  have ft: "fetchTopStories api (checkAndResetCache now s) = (?ids, ?s1)"
    by (simp add: scan_ids_def scan_start_def)
  obtain r s2 where fp: "firstPass api (take 30 ?ids) ?s1 = (r, s2)"
    by (cases "firstPass api (take 30 ?ids) ?s1") auto
  have iff: "fallback_taken now api s \<longleftrightarrow> (?ids \<noteq> [] \<and> postedStories ?s1 \<noteq> [] \<and> r = None)"
    by (rule fallback_taken_iff_aux [OF ft fp])
  have p: "postedStories ?s1 = postedStories (checkAndResetCache now s)"
    by (rule scan_start_posted)
  have none: "r = None \<longleftrightarrow> (\<forall>k<length (take 30 ?ids). rejected api (take 30 ?ids) ?s1 k)"
    using firstPass_None_iff [of api "take 30 ?ids" ?s1] fp by simp
  have first: "fallback_taken now api s \<longleftrightarrow>
      ?ids \<noteq> [] \<and> postedStories (checkAndResetCache now s) \<noteq> []
      \<and> (\<forall>k<length (take 30 ?ids). rejected api (take 30 ?ids) ?s1 k)"
    using iff p none by simp
  have second: "fallback_taken now api s"
    if ne: "?ids \<noteq> []" and sub: "set (take 30 ?ids) \<subseteq> set (postedStories (checkAndResetCache now s))"
  proof -
    have "fst (firstPass api (take 30 ?ids) ?s1) = None"
      using firstPass_all_posted [of "take 30 ?ids" ?s1 api] sub p by simp
    then have "r = None" using fp by simp
    moreover have "take 30 ?ids \<noteq> []" using ne by (cases ?ids) simp_all
    then have "postedStories (checkAndResetCache now s) \<noteq> []" using sub by auto
    ultimately show ?thesis using iff p ne by simp
  qed
  have third: "postedStories (fallback_start now api s) = []
        \<and> fetchTopStory now api s
            = fallbackPass api (take 10 ?ids) (fallback_start now api s)"
    if taken: "fallback_taken now api s"
    using fetchTopStory_fallback_eq [OF taken] by (simp add: fallback_start_def)
  have fourth: "fst (fallbackPass api ids t) = None \<longleftrightarrow> (\<forall>k<length ids. unfit api ids t k)"
    by (rule fallbackPass_None_iff)
  have fifth: "fallbackPass api ids t
          = (fst (fetchItem api (ids ! k) (snd (fallbackPass api (take k ids) t))),
             markStoryAsPosted (ids ! k)
               (snd (fetchItem api (ids ! k) (snd (fallbackPass api (take k ids) t)))))"
    if "k < length ids \<and> (\<forall>j<k. unfit api ids t j) \<and> \<not> unfit api ids t k"
    using that fallbackPass_first_valid [of k ids api t] by blast
  show ?thesis using first second third fourth fifth by blast
qed

theorem fallback_taken_iff_witness:
  "scan_ids 5 (fixed_api [1, 2]) (cache [1, 9] 0) = [1, 2]
   \<and> postedStories (checkAndResetCache 5 (cache [1, 9] 0)) = [1, 9]
   \<and> rejected (fixed_api [1, 2]) [1, 2] (scan_start 5 (fixed_api [1, 2]) (cache [1, 9] 0)) 0
   \<and> rejected (fixed_api [1, 2]) [1, 2] (scan_start 5 (fixed_api [1, 2]) (cache [1, 9] 0)) 1
   \<and> fallback_taken 5 (fixed_api [1, 2]) (cache [1, 9] 0)
   \<and> fallbackPass (fixed_api [1, 2]) (take 10 [1, 2])
        (fallback_start 5 (fixed_api [1, 2]) (cache [1, 9] 0))
       = (Some (story_of 1), \<lparr>postedStories = [1], lastResetTimestamp = 0,
            console = [Skipping 1, AllPosted, MarkedAsPosted 1 1], net = ()\<rparr>)
   \<and> \<not> unfit (fixed_api [1, 2]) (take 10 [1, 2])
         (fallback_start 5 (fixed_api [1, 2]) (cache [1, 9] 0)) 0
   \<and> fetchTopStory 5 (fixed_api [1, 2]) (cache [1, 9] 0)
       = (Some (story_of 1), \<lparr>postedStories = [1], lastResetTimestamp = 0,
            console = [Skipping 1, AllPosted, MarkedAsPosted 1 1], net = ()\<rparr>)"
proof -
  let ?api = "fixed_api [1, 2]" and ?s = "cache [1, 9] 0"
  have ids: "scan_ids 5 ?api ?s = [1, 2]"
    by (simp add: fetchTopStories_def checkAndResetCache_def fixed_api_def cache_def scan_ids_def)
  have posted: "postedStories (checkAndResetCache 5 ?s) = [1, 9]"
    by (simp add: checkAndResetCache_def cache_def)
  have r0: "rejected ?api [1, 2] (scan_start 5 ?api ?s) 0"
    by (simp add: rejected_def scan_start_posted posted)
  have r1: "rejected ?api [1, 2] (scan_start 5 ?api ?s) 1"
    by (simp add: rejected_def fetchTopStories_def checkAndResetCache_def fixed_api_def
        cache_def fetchItem_def valid_story_def story_of_def say_def scan_start_def)
  have "\<forall>k<length (take 30 [1, 2 :: int]). rejected ?api (take 30 [1, 2]) (scan_start 5 ?api ?s) k"
    using r0 r1 by (simp add: less_Suc_eq)
  then have taken: "fallback_taken 5 ?api ?s"
    using fallback_taken_iff [of 5 ?api ?s] ids posted by simp
  have fb: "fallbackPass ?api (take 10 [1, 2]) (fallback_start 5 ?api ?s)
       = (Some (story_of 1), \<lparr>postedStories = [1], lastResetTimestamp = 0,
            console = [Skipping 1, AllPosted, MarkedAsPosted 1 1], net = ()\<rparr>)"
    by (simp add: fallback_start_def scan_ids_def scan_start_def fetchTopStories_def
        checkAndResetCache_def fixed_api_def cache_def fetchItem_def valid_story_def story_of_def
        say_def markStoryAsPosted_def str_def)
  have u0: "\<not> unfit ?api (take 10 [1, 2]) (fallback_start 5 ?api ?s) 0"
    by (simp add: unfit_def fixed_api_def fetchItem_def valid_story_def story_of_def str_def)
  have "fetchTopStory 5 ?api ?s = fallbackPass ?api (take 10 [1, 2]) (fallback_start 5 ?api ?s)"
    using fallback_taken_iff [of 5 ?api ?s] taken ids by simp
  then show ?thesis using ids posted r0 r1 taken fb u0 by simp
qed

lemma fallbackPass_quiet_lrt:
  "lastResetTimestamp (snd (fallbackPass api ids s)) = lastResetTimestamp s"
proof (induction ids arbitrary: s)
  case Nil show ?case by simp
next
  case (Cons i rest)
  obtain v s1 where fi: "fetchItem api i s = (v, s1)" by (cases "fetchItem api i s") auto
  from fetchItem_frame [OF fi] have "lastResetTimestamp s1 = lastResetTimestamp s"
    by (simp add: quiet_def)
  moreover have "lastResetTimestamp (markStoryAsPosted i s1) = lastResetTimestamp s1"
    using markStoryAsPosted_quiet [of s1 i] by (simp add: quiet_def)
  ultimately show ?case using fi Cons.IH [of s1] by simp
qed

lemma fetchTopStory_lrt:
  "lastResetTimestamp (snd (fetchTopStory now api s))
     = lastResetTimestamp (checkAndResetCache now s)"
proof -
  obtain ids s1 where ft: "fetchTopStories api (checkAndResetCache now s) = (ids, s1)"
    by (cases "fetchTopStories api (checkAndResetCache now s)") auto
  obtain r s2 where fp: "firstPass api (take 30 ids) s1 = (r, s2)"
    by (cases "firstPass api (take 30 ids) s1") auto
  have l1: "lastResetTimestamp s1 = lastResetTimestamp (checkAndResetCache now s)"
    using fetchTopStories_frame [OF ft] by (simp add: quiet_def)
  have l2: "lastResetTimestamp s2 = lastResetTimestamp s1"
    using firstPass_quiet [OF fp] by (simp add: quiet_def)
  have l3: "lastResetTimestamp (snd (fallbackPass api (take 10 ids)
              ((say AllPosted s2)\<lparr>postedStories := []\<rparr>))) = lastResetTimestamp s2"
    by (simp add: fallbackPass_quiet_lrt)
  show ?thesis
    using fetchTopStory_paths [OF ft fp] l1 l2 l3 by (simp split: if_splits)
qed

lemma fetchTopStory_fallback_result:
  assumes taken: "fallback_taken now api s"
  shows "\<exists>ids s2. fetchTopStory now api s
            = fallbackPass api ids ((say AllPosted s2)\<lparr>postedStories := []\<rparr>)"
proof -
  obtain ids s1 where ft: "fetchTopStories api (checkAndResetCache now s) = (ids, s1)"
    by (cases "fetchTopStories api (checkAndResetCache now s)") auto
  obtain r s2 where fp: "firstPass api (take 30 ids) s1 = (r, s2)"
    by (cases "firstPass api (take 30 ids) s1") auto
  have "ids \<noteq> [] \<and> postedStories s1 \<noteq> [] \<and> r = None"
    using fallback_taken_iff_aux [OF ft fp] taken by simp
  then have "fetchTopStory now api s
      = fallbackPass api (take 10 ids) ((say AllPosted s2)\<lparr>postedStories := []\<rparr>)"
    using fetchTopStory_paths [OF ft fp] by simp
  then show ?thesis by blast
qed

text \<open>
  C5: for every candidate list and every dedup set, when the item service answers a
  request with the item of the requested identifier, the first pass never returns a
  story whose identifier was in the dedup set at the start of the scan (the story it
  returns is one of the scanned identifiers, not in the set, and is appended to the
  set); and when \<open>fetchTopStory\<close> returns a story whose identifier was in the dedup set
  at the start of the scan, the fallback path was taken and the dedup set, cleared
  first, holds that identifier alone.
\<close>

theorem selection_never_returns_posted:
  assumes "faithful api"
  shows "(firstPass api ids s = (Some story, s') \<longrightarrow>
            id_hn story \<notin> set (postedStories s) \<and> id_hn story \<in> set ids
            \<and> postedStories s' = postedStories s @ [id_hn story])
       \<and> (fetchTopStory now api s = (Some story, s')
            \<and> id_hn story \<in> set (postedStories (checkAndResetCache now s)) \<longrightarrow>
            fallback_taken now api s \<and> postedStories s' = [id_hn story])"
proof -
  have first: "id_hn story \<notin> set (postedStories s) \<and> id_hn story \<in> set ids
        \<and> postedStories s' = postedStories s @ [id_hn story]"
    if fp0: "firstPass api ids s = (Some story, s')"
    using firstPass_Some [OF fp0] assms by auto
  have second: "fallback_taken now api s \<and> postedStories s' = [id_hn story]"
    if a: "fetchTopStory now api s = (Some story, s')
     \<and> id_hn story \<in> set (postedStories (checkAndResetCache now s))"
  proof -
  obtain ids s1 where ft: "fetchTopStories api (checkAndResetCache now s) = (ids, s1)"
    by (cases "fetchTopStories api (checkAndResetCache now s)") auto
  obtain r s2 where fp: "firstPass api (take 30 ids) s1 = (r, s2)"
    by (cases "firstPass api (take 30 ids) s1") auto
  have p1: "postedStories s1 = postedStories (checkAndResetCache now s)"
    using fetchTopStories_frame [OF ft] by simp
  note paths = fetchTopStory_paths [OF ft fp]
  have ne: "ids \<noteq> []" using paths a by auto
  have rn: "r = None"
  proof (rule ccontr)
    assume "r \<noteq> None"
    then have "firstPass api (take 30 ids) s1 = (Some story, s')" using paths ne a fp by auto
    from firstPass_Some [OF this] assms have "id_hn story \<notin> set (postedStories s1)" by auto
    with a p1 show False by simp
  qed
  have pn: "postedStories s1 \<noteq> []" using a p1 by auto
  have taken: "fallback_taken now api s"
    using fallback_taken_iff_aux [OF ft fp] ne rn pn by simp
  have fb: "fallbackPass api (take 10 ids) ((say AllPosted s2)\<lparr>postedStories := []\<rparr>)
      = (Some story, s')"
    using paths ne rn pn a by simp
  from fallbackPass_frame [OF fb] assms have "postedStories s' = [id_hn story]" by auto
  with taken show ?thesis by simp
  qed
  show ?thesis using first second by blast
qed

lemma faithful_fixed_api: "faithful (fixed_api ids)"
  by (simp add: faithful_def fixed_api_def story_of_def)

theorem selection_never_returns_posted_witness:
  "faithful (fixed_api [1, 3])
   \<and> firstPass (fixed_api [1, 3]) [1, 3] (cache [1] 0)
       = (Some (story_of 3), \<lparr>postedStories = [1, 3], lastResetTimestamp = 0,
            console = [Skipping 1, MarkedAsPosted 3 2], net = ()\<rparr>)
   \<and> id_hn (story_of 3) \<notin> set (postedStories (cache [1] 0))
   \<and> fetchTopStory 5 (fixed_api [1, 2]) (cache [1, 9] 0)
       = (Some (story_of 1), \<lparr>postedStories = [1], lastResetTimestamp = 0,
            console = [Skipping 1, AllPosted, MarkedAsPosted 1 1], net = ()\<rparr>)
   \<and> fallback_taken 5 (fixed_api [1, 2]) (cache [1, 9] 0)"
proof -
  have f1: "faithful (fixed_api [1, 3])" and f2: "faithful (fixed_api [1, 2])"
    by (rule faithful_fixed_api)+
  have a: "firstPass (fixed_api [1, 3]) [1, 3] (cache [1] 0)
       = (Some (story_of 3), \<lparr>postedStories = [1, 3], lastResetTimestamp = 0,
            console = [Skipping 1, MarkedAsPosted 3 2], net = ()\<rparr>)"
    by (simp add: fixed_api_def cache_def fetchItem_def valid_story_def story_of_def say_def
        markStoryAsPosted_def str_def)
  have b: "fetchTopStory 5 (fixed_api [1, 2]) (cache [1, 9] 0)
       = (Some (story_of 1), \<lparr>postedStories = [1], lastResetTimestamp = 0,
            console = [Skipping 1, AllPosted, MarkedAsPosted 1 1], net = ()\<rparr>)"
    by (simp add: fetchTopStory_def fetchTopStories_def checkAndResetCache_def fixed_api_def
        cache_def fetchItem_def valid_story_def story_of_def say_def markStoryAsPosted_def str_def)
  have c: "id_hn (story_of 1) \<in> set (postedStories (checkAndResetCache 5 (cache [1, 9] 0)))"
    by (simp add: checkAndResetCache_def cache_def story_of_def)
  show ?thesis
    using selection_never_returns_posted [OF f1, where ids = "[1, 3]" and s = "cache [1] 0"
        and story = "story_of 3"
        and s' = "\<lparr>postedStories = [1, 3], lastResetTimestamp = 0,
            console = [Skipping 1, MarkedAsPosted 3 2], net = ()\<rparr>"]
      selection_never_returns_posted [OF f2, where story = "story_of 1"
        and s' = "\<lparr>postedStories = [1], lastResetTimestamp = 0,
            console = [Skipping 1, AllPosted, MarkedAsPosted 1 1], net = ()\<rparr>"
        and now = 5 and s = "cache [1, 9] 0"]
      f1 a b c
    by simp
qed

text \<open>
  C6: after the window check, and after every selection, \<open>now - lastResetTimestamp\<close> is
  at most 24 hours (86400000 ms). When more than 24 hours have elapsed the check empties
  the dedup set and sets the window start to \<open>now\<close> before the scan, so the selection is
  the one made from the emptied cache; a selection at window start + 24 h + 1 ms scans
  against an empty dedup set.
\<close>

theorem dedup_window:
  "now - lastResetTimestamp (checkAndResetCache now s) \<le> 86400000
   \<and> now - lastResetTimestamp (snd (fetchTopStory now api s)) \<le> 86400000
   \<and> (now - lastResetTimestamp s > 86400000 \<longrightarrow>
        postedStories (checkAndResetCache now s) = []
        \<and> lastResetTimestamp (checkAndResetCache now s) = now
        \<and> postedStories (scan_start now api s) = []
        \<and> fetchTopStory now api s
            = fetchTopStory now api
                ((say CacheReset s)\<lparr>postedStories := [], lastResetTimestamp := now\<rparr>))
   \<and> postedStories (scan_start (lastResetTimestamp s + 86400001) api s) = []"
proof -
  have a: "now - lastResetTimestamp (checkAndResetCache now s) \<le> 86400000"
    by (simp add: checkAndResetCache_def)
  have b: "now - lastResetTimestamp (snd (fetchTopStory now api s)) \<le> 86400000"
    using a by (simp add: fetchTopStory_lrt)
  have idem: "checkAndResetCache t (checkAndResetCache t u) = checkAndResetCache t u"
    for t and u :: "'a hn_state"
    by (simp add: checkAndResetCache_def)
  have c: "fetchTopStory now api s
            = fetchTopStory now api
                ((say CacheReset s)\<lparr>postedStories := [], lastResetTimestamp := now\<rparr>)"
    if "now - lastResetTimestamp s > 86400000"
  proof -
    have "checkAndResetCache now s
        = (say CacheReset s)\<lparr>postedStories := [], lastResetTimestamp := now\<rparr>"
      using that by (simp add: checkAndResetCache_def)
    then show ?thesis
      using idem [of now s] by (simp add: fetchTopStory_def)
  qed
  have d: "postedStories (scan_start (lastResetTimestamp s + 86400001) api s) = []"
    by (simp add: scan_start_posted checkAndResetCache_def)
  show ?thesis
    using a b c d by (simp add: scan_start_posted checkAndResetCache_def)
qed

theorem dedup_window_witness:
  "(86400001::int) - lastResetTimestamp (cache [1] 0) > 86400000
   \<and> postedStories (checkAndResetCache 86400001 (cache [1] 0)) = []
   \<and> fetchTopStory 86400001 (fixed_api [1]) (cache [1] 0)
       = (Some (story_of 1), \<lparr>postedStories = [1], lastResetTimestamp = 86400001,
            console = [CacheReset, MarkedAsPosted 1 1], net = ()\<rparr>)
   \<and> \<not> fallback_taken 86400001 (fixed_api [1]) (cache [1] 0)"
proof -
  have h: "(86400001::int) - lastResetTimestamp (cache [1] 0) > 86400000"
    by (simp add: cache_def)
  have r: "fetchTopStory 86400001 (fixed_api [1])
             ((say CacheReset (cache [1] 0))\<lparr>postedStories := [], lastResetTimestamp := 86400001\<rparr>)
       = (Some (story_of 1), \<lparr>postedStories = [1], lastResetTimestamp = 86400001,
            console = [CacheReset, MarkedAsPosted 1 1], net = ()\<rparr>)"
    by (simp add: fetchTopStory_def fetchTopStories_def checkAndResetCache_def fixed_api_def
        cache_def fetchItem_def valid_story_def story_of_def say_def markStoryAsPosted_def str_def)
  show ?thesis
    using dedup_window [of 86400001 "cache [1] 0" "fixed_api [1]"] h r
    by (simp add: fallback_taken_def emitted_def cache_def)
qed

text \<open>
  C10: the window start after a selection is the one the 24-hour check left: \<open>now\<close>
  when the window had expired, the old value otherwise, whether or not the fallback
  path was taken. The fallback's clearing step and its re-scan keep the window start;
  when the fallback is taken the dedup set ends with at most the newly selected
  identifier.
\<close>

theorem fallback_keeps_window_start:
  "lastResetTimestamp (snd (fetchTopStory now api s))
     = (if now - lastResetTimestamp s > 86400000 then now else lastResetTimestamp s)
   \<and> lastResetTimestamp (snd (fallbackPass api ids ((say AllPosted s)\<lparr>postedStories := []\<rparr>)))
       = lastResetTimestamp s
   \<and> (fallback_taken now api s \<longrightarrow>
        length (postedStories (snd (fetchTopStory now api s))) \<le> 1
        \<and> lastResetTimestamp (snd (fetchTopStory now api s))
            = lastResetTimestamp (checkAndResetCache now s))"
proof -
  have a: "lastResetTimestamp (snd (fetchTopStory now api s))
     = (if now - lastResetTimestamp s > 86400000 then now else lastResetTimestamp s)"
    by (simp add: fetchTopStory_lrt checkAndResetCache_def)
  have b: "lastResetTimestamp (snd (fallbackPass api ids ((say AllPosted s)\<lparr>postedStories := []\<rparr>)))
       = lastResetTimestamp s"
    by (simp add: fallbackPass_quiet_lrt)
  have c: "length (postedStories (snd (fetchTopStory now api s))) \<le> 1"
    if taken: "fallback_taken now api s"
  proof -
    obtain ids' s2 where e: "fetchTopStory now api s
            = fallbackPass api ids' ((say AllPosted s2)\<lparr>postedStories := []\<rparr>)"
      using fetchTopStory_fallback_result [OF taken] by blast
    obtain r s' where fb: "fallbackPass api ids' ((say AllPosted s2)\<lparr>postedStories := []\<rparr>) = (r, s')"
      by (cases "fallbackPass api ids' ((say AllPosted s2)\<lparr>postedStories := []\<rparr>)") auto
    from fallbackPass_frame [OF fb] have "length (postedStories s') \<le> 1"
      by (cases r) auto
    with e fb show ?thesis by simp
  qed
  show ?thesis using a b c by (simp add: fetchTopStory_lrt)
qed

theorem fallback_keeps_window_start_witness:
  "fallback_taken 5 (fixed_api [1, 2]) (cache [1, 9] 0)
   \<and> postedStories (snd (fetchTopStory 5 (fixed_api [1, 2]) (cache [1, 9] 0))) = [1]
   \<and> lastResetTimestamp (snd (fetchTopStory 5 (fixed_api [1, 2]) (cache [1, 9] 0))) = 0"
proof -
  have b: "fetchTopStory 5 (fixed_api [1, 2]) (cache [1, 9] 0)
       = (Some (story_of 1), \<lparr>postedStories = [1], lastResetTimestamp = 0,
            console = [Skipping 1, AllPosted, MarkedAsPosted 1 1], net = ()\<rparr>)"
    by (simp add: fetchTopStory_def fetchTopStories_def checkAndResetCache_def fixed_api_def
        cache_def fetchItem_def valid_story_def story_of_def say_def markStoryAsPosted_def str_def)
  have t: "fallback_taken 5 (fixed_api [1, 2]) (cache [1, 9] 0)"
    using b by (simp add: fallback_taken_def emitted_def cache_def)
  show ?thesis
    using fallback_keeps_window_start [of 5 "fixed_api [1, 2]" "cache [1, 9] 0"] t b
    by simp
qed

section \<open>Properties of the signer\<close>

lemma map_sort_key: "map f (sort_key f xs) = sort (map f xs)"
proof (induction xs)
  case Nil show ?case by simp
next
  case (Cons x xs)
  have ins: "map f (insort_key f x ys) = insort (f x) (map f ys)" for ys
    by (induction ys) auto
  show ?case using Cons by (simp add: ins)
qed

lemma lookup_distinct:
  "distinct (map fst ps) \<Longrightarrow> (k, v) \<in> set ps \<Longrightarrow> lookup ps k = v"
  by (simp add: lookup_def)

lemma parameterItems_sorted_pairs:
  assumes "distinct (map fst ps)"
  shows "parameterItems ps = sequence (map encoded_item (sort_key fst ps))"
proof -
  have "map (\<lambda>key. map_option (\<lambda>v. key @ str ''='' @ v) (encodeURIComponent (lookup ps key)))
            (map fst (sort_key fst ps))
        = map encoded_item (sort_key fst ps)"
  proof (unfold map_map, rule map_cong [OF refl])
    fix kv assume "kv \<in> set (sort_key fst ps)"
    then have "(fst kv, snd kv) \<in> set ps" by simp
    from lookup_distinct [OF assms this]
    show "((\<lambda>key. map_option (\<lambda>v. key @ str ''='' @ v) (encodeURIComponent (lookup ps key))) \<circ> fst) kv
        = encoded_item kv"
      by (simp add: encoded_item_def)
  qed
  then show ?thesis
    by (simp only: parameterItems_def map_sort_key [symmetric])
qed

lemma sort_key_same_set:
  assumes "distinct (map fst ps)" "distinct (map fst ps')" "set ps' = set ps"
  shows "sort_key fst ps' = sort_key fst (ps :: params)"
proof (rule map_sorted_distinct_set_unique [where f = fst])
  have "inj_on fst (set ps)" using assms(1) by (simp add: distinct_map)
  then show "inj_on fst (set (sort_key fst ps') \<union> set (sort_key fst ps))"
    using assms(3) by simp
  show "sorted (map fst (sort_key fst ps'))" "sorted (map fst (sort_key fst ps))"
    by simp_all
  show "distinct (map fst (sort_key fst ps'))" using assms(2)
    by (simp add: map_sort_key)
  show "distinct (map fst (sort_key fst ps))" using assms(1)
    by (simp add: map_sort_key)
  show "set (sort_key fst ps') = set (sort_key fst ps)" using assms(3) by simp
qed

text \<open>
  C4 (amended): for a parameter object (with its keys distinct, as an object's are) the
  signature base string is \<open>POST\<close>, the percent-encoded URL and the percent-encoded
  parameter string, joined with ampersands, where the parameter string lists the items
  \<open>key=percent-encode(value)\<close> sorted lexicographically by key and joined with
  ampersands. The keys appear in sorted order, and the result does not depend on the
  order in which the parameters were supplied.
\<close>

theorem signatureBaseString_sorted:
  assumes "distinct (map fst ps)"
  shows "signatureBaseString u ps = amended_base_string u ps
       \<and> sorted (map fst (sort_key fst ps))
       \<and> (distinct (map fst ps') \<and> set ps' = set ps \<longrightarrow>
            signatureBaseString u ps' = signatureBaseString u ps)"
proof -
  have a: "signatureBaseString u qs = amended_base_string u qs" if "distinct (map fst qs)" for qs
    using parameterItems_sorted_pairs [OF that]
    by (simp add: signatureBaseString_def amended_base_string_def split: option.splits)
  have c: "signatureBaseString u ps' = signatureBaseString u ps"
    if d: "distinct (map fst ps')" and s: "set ps' = set ps"
  proof -
    have "amended_base_string u ps' = amended_base_string u ps"
      unfolding amended_base_string_def sort_key_same_set [OF assms d s] by (rule refl)
    then show ?thesis using a [OF assms] a [OF d] by simp
  qed
  show ?thesis using a [OF assms] c by simp
qed

lemmas encode_simps =
  unreserved_def high_surrogate_def low_surrogate_def percent_def utf8_def hex_upper_def

lemma sample_nonce:
  "generateNonce sample_rnd = str ''000102030405060708090a0b0c0d0e0f''"
  by (simp add: generateNonce_def sample_rnd_def hex_lower_def str_def)

lemma sample_timestamp: "number_toString 1700000000 = str ''1700000000''"
  by (simp add: number_toString_def decimal.simps str_def)

lemma sample_params_eq:
  "sample_params =
     [(str ''oauth_consumer_key'', str ''k+1''),
      (str ''oauth_nonce'', str ''000102030405060708090a0b0c0d0e0f''),
      (str ''oauth_signature_method'', str ''HMAC-SHA1''),
      (str ''oauth_timestamp'', str ''1700000000''),
      (str ''oauth_token'', str ''at''),
      (str ''oauth_version'', str ''1.0'')]"
  by (simp add: sample_params_def oauthParams_def sample_nonce sample_timestamp)

lemma sample_items:
  "parameterItems sample_params = Some
     [str ''oauth_consumer_key=k%2B1'', str ''oauth_nonce=000102030405060708090a0b0c0d0e0f'',
      str ''oauth_signature_method=HMAC-SHA1'', str ''oauth_timestamp=1700000000'',
      str ''oauth_token=at'', str ''oauth_version=1.0'']"
  unfolding sample_params_eq
  by (simp add: parameterItems_def lookup_def encode_simps str_def)

lemma sample_url: "encodeURIComponent twitter_url = Some (str ''https%3A%2F%2Fapi.twitter.com%2F2%2Ftweets'')"
  by (simp add: twitter_url_def encode_simps str_def)

lemma sample_base_string:
  "signatureBaseString twitter_url sample_params =
     Some (str ''POST&https%3A%2F%2Fapi.twitter.com%2F2%2Ftweets&oauth_consumer_key%3Dk%252B1%26oauth_nonce%3D000102030405060708090a0b0c0d0e0f%26oauth_signature_method%3DHMAC-SHA1%26oauth_timestamp%3D1700000000%26oauth_token%3Dat%26oauth_version%3D1.0'')"
proof -
  have "encodeURIComponent (join (str ''&'')
     [str ''oauth_consumer_key=k%2B1'', str ''oauth_nonce=000102030405060708090a0b0c0d0e0f'',
      str ''oauth_signature_method=HMAC-SHA1'', str ''oauth_timestamp=1700000000'',
      str ''oauth_token=at'', str ''oauth_version=1.0''])
    = Some (str ''oauth_consumer_key%3Dk%252B1%26oauth_nonce%3D000102030405060708090a0b0c0d0e0f%26oauth_signature_method%3DHMAC-SHA1%26oauth_timestamp%3D1700000000%26oauth_token%3Dat%26oauth_version%3D1.0'')"
    by (simp add: join_def encode_simps str_def)
  then show ?thesis
    by (simp add: signatureBaseString_def sample_items sample_url) (simp add: join_def str_def)
qed

lemma sample_claimed:
  "claimed_base_string twitter_url sample_params =
     Some (str ''POST&https%3A%2F%2Fapi.twitter.com%2F2%2Ftweets&oauth_consumer_key%3Dk%2B1%26oauth_nonce%3D000102030405060708090a0b0c0d0e0f%26oauth_signature_method%3DHMAC-SHA1%26oauth_timestamp%3D1700000000%26oauth_token%3Dat%26oauth_version%3D1.0'')"
proof -
  have "sort_key fst sample_params = sample_params"
    unfolding sample_params_eq by (simp add: str_def)
  moreover have "encodeURIComponent (join (str ''&'') (map raw_item sample_params))
    = Some (str ''oauth_consumer_key%3Dk%2B1%26oauth_nonce%3D000102030405060708090a0b0c0d0e0f%26oauth_signature_method%3DHMAC-SHA1%26oauth_timestamp%3D1700000000%26oauth_token%3Dat%26oauth_version%3D1.0'')"
    unfolding sample_params_eq
    by (simp add: join_def raw_item_def encode_simps str_def)
  ultimately show ?thesis
    by (simp add: claimed_base_string_def sample_url) (simp add: join_def str_def)
qed

text \<open>
  C4 (as stated): the base string is \<open>METHOD & percent-encode(URL) &
  percent-encode(the key=value pairs sorted by key and joined by '&')\<close>.
  This fails for a value with a reserved character: with the consumer key \<open>k+1\<close> the
  code yields \<open>oauth_consumer_key%3Dk%252B1\<close> (the value encoded inside its pair, then
  again with the whole), the stated formula \<open>oauth_consumer_key%3Dk%2B1\<close>.
\<close>

theorem signatureBaseString_counterexample:
  "signatureBaseString twitter_url sample_params \<noteq> claimed_base_string twitter_url sample_params"
  unfolding sample_base_string sample_claimed by (simp add: str_def)

theorem signatureBaseString_sorted_witness:
  "distinct (map fst sample_params)
   \<and> distinct (map fst (rev sample_params)) \<and> set (rev sample_params) = set sample_params
   \<and> rev sample_params \<noteq> sample_params
   \<and> signatureBaseString twitter_url (rev sample_params)
       = Some (str ''POST&https%3A%2F%2Fapi.twitter.com%2F2%2Ftweets&oauth_consumer_key%3Dk%252B1%26oauth_nonce%3D000102030405060708090a0b0c0d0e0f%26oauth_signature_method%3DHMAC-SHA1%26oauth_timestamp%3D1700000000%26oauth_token%3Dat%26oauth_version%3D1.0'')"
proof -
  have d: "distinct (map fst sample_params)"
    unfolding sample_params_eq by (simp add: str_def)
  have d': "distinct (map fst (rev sample_params))"
    using d by (simp add: rev_map [symmetric])
  have ne: "rev sample_params \<noteq> sample_params"
    unfolding sample_params_eq by (simp add: str_def)
  show ?thesis
    using signatureBaseString_sorted [OF d, of twitter_url "rev sample_params"] d d' ne
      sample_base_string
    by simp
qed

lemma oauthParams_sorted: "sort_key fst (oauthParams ck at now rnd) = oauthParams ck at now rnd"
  by (rule sort_key_id_if_sorted) (simp add: oauthParams_def str_def)

lemma signed_params_distinct:
  "distinct (map fst (oauthParams ck at now rnd @ [(str ''oauth_signature'', sig)]))"
  by (simp add: oauthParams_def str_def)

lemma headerItems_pairs:
  assumes "distinct (map fst ps)"
  shows "headerItems ps = sequence (map header_item ps)"
proof -
  have "map (\<lambda>key. case encodeURIComponent key of
                   None \<Rightarrow> None
                 | Some ek \<Rightarrow>
                     map_option (\<lambda>ev. ek @ str ''=\"'' @ ev @ str ''\"'')
                       (encodeURIComponent (lookup ps key))) (map fst ps)
        = map header_item ps"
  proof (unfold map_map, rule map_cong [OF refl])
    fix kv assume "kv \<in> set ps"
    then have "(fst kv, snd kv) \<in> set ps" by simp
    from lookup_distinct [OF assms this]
    show "((\<lambda>key. case encodeURIComponent key of
                   None \<Rightarrow> None
                 | Some ek \<Rightarrow>
                     map_option (\<lambda>ev. ek @ str ''=\"'' @ ev @ str ''\"'')
                       (encodeURIComponent (lookup ps key))) \<circ> fst) kv = header_item kv"
      by (simp add: header_item_def split: option.splits)
  qed
  then show ?thesis by (simp only: headerItems_def)
qed

text \<open>
  C2 (amended): whenever the signer builds a request, its authorization header is
  \<open>OAuth\<close> and a space, followed by the items \<open>percent-encode(key)="percent-encode(value)"\<close>
  joined with a comma and a space: first the six parameters of the signature base
  string in the order of that string (lexicographic by key), then \<open>oauth_signature\<close>,
  the base64 HMAC of the base string under the signing key, as the last item.
\<close>

theorem authHeader_order:
  assumes "signedRequest hmac tweetText ck cs at ats now rnd = Some req"
  shows "\<exists>baseString key items.
           signatureBaseString twitter_url (oauthParams ck at now rnd) = Some baseString
         \<and> signingKey cs ats = Some key
         \<and> sequence (map header_item
               (sort_key fst (oauthParams ck at now rnd)
                  @ [(str ''oauth_signature'', createOAuthSignature hmac key baseString)]))
             = Some items
         \<and> map_of (req_headers req) (str ''Authorization'')
             = Some (str ''OAuth '' @ join (str '', '') items)"
proof -
  from assms obtain baseString where
    b: "signatureBaseString twitter_url (oauthParams ck at now rnd) = Some baseString"
    by (auto simp: signedRequest_def split: option.splits)
  from assms b obtain key where k: "signingKey cs ats = Some key"
    by (auto simp: signedRequest_def split: option.splits)
  let ?ps = "oauthParams ck at now rnd @ [(str ''oauth_signature'', createOAuthSignature hmac key baseString)]"
  from assms b k obtain h where h: "authHeader ?ps = Some h"
    and r: "map_of (req_headers req) (str ''Authorization'') = Some h"
    by (auto simp: signedRequest_def split: option.splits)
  from h obtain items where i: "headerItems ?ps = Some items"
    and hs: "h = str ''OAuth '' @ join (str '', '') items"
    by (auto simp: authHeader_def)
  have "sequence (map header_item ?ps) = Some items"
    using i headerItems_pairs [OF signed_params_distinct] by simp
  then show ?thesis
    using b k r hs by (auto simp: oauthParams_sorted)
qed

lemma sample_signature: "createOAuthSignature zero_hmac key baseString = zero_signature"
  by (simp add: createOAuthSignature_def zero_hmac_def zero_signature_def base64_digit_def str_def)

lemma sample_signing_key: "signingKey (str ''cs'') (str ''as'') = Some (str ''cs&as'')"
  by (simp add: signingKey_def encode_simps str_def)

lemma sample_header_items:
  "sequence (map header_item (sample_params @ [(str ''oauth_signature'', zero_signature)])) = Some
     [str ''oauth_consumer_key=\"k%2B1\"'', str ''oauth_nonce=\"000102030405060708090a0b0c0d0e0f\"'',
      str ''oauth_signature_method=\"HMAC-SHA1\"'', str ''oauth_timestamp=\"1700000000\"'',
      str ''oauth_token=\"at\"'', str ''oauth_version=\"1.0\"'',
      str ''oauth_signature=\"AAAAAAAAAAAAAAAAAAAAAAAAAAA%3D\"'']"
  unfolding sample_params_eq
  by (simp add: header_item_def zero_signature_def encode_simps str_def)

lemma sample_auth_header:
  "authHeader (sample_params @ [(str ''oauth_signature'', zero_signature)]) = Some sample_header"
proof -
  have "distinct (map fst (sample_params @ [(str ''oauth_signature'', zero_signature)]))"
    unfolding sample_params_def by (rule signed_params_distinct)
  from headerItems_pairs [OF this]
  have "headerItems (sample_params @ [(str ''oauth_signature'', zero_signature)]) = Some
     [str ''oauth_consumer_key=\"k%2B1\"'', str ''oauth_nonce=\"000102030405060708090a0b0c0d0e0f\"'',
      str ''oauth_signature_method=\"HMAC-SHA1\"'', str ''oauth_timestamp=\"1700000000\"'',
      str ''oauth_token=\"at\"'', str ''oauth_version=\"1.0\"'',
      str ''oauth_signature=\"AAAAAAAAAAAAAAAAAAAAAAAAAAA%3D\"'']"
    by (simp only: sample_header_items)
  then show ?thesis
    by (simp only: authHeader_def option.map) (simp add: join_def sample_header_def str_def)
qed

lemma sample_request_header:
  "map_option (\<lambda>r. map_of (req_headers r) (str ''Authorization'')) sample_request
     = Some (Some sample_header)"
  using sample_base_string sample_signing_key sample_auth_header
  by (simp add: sample_request_def signedRequest_def sample_params_def [symmetric] sample_signature)

lemma sample_sorted_signed:
  "sort_key fst (sample_params @ [(str ''oauth_signature'', zero_signature)]) =
     [(str ''oauth_consumer_key'', str ''k+1''),
      (str ''oauth_nonce'', str ''000102030405060708090a0b0c0d0e0f''),
      (str ''oauth_signature'', zero_signature),
      (str ''oauth_signature_method'', str ''HMAC-SHA1''),
      (str ''oauth_timestamp'', str ''1700000000''),
      (str ''oauth_token'', str ''at''),
      (str ''oauth_version'', str ''1.0'')]"
  unfolding sample_params_eq by (simp add: str_def)

lemma sample_claimed_header_eq:
  "claimed_header (sample_params @ [(str ''oauth_signature'', zero_signature)])
     = Some sample_claimed_header"
proof -
  have "sequence (map header_item (sort_key fst (sample_params @ [(str ''oauth_signature'', zero_signature)]))) = Some
     [str ''oauth_consumer_key=\"k%2B1\"'', str ''oauth_nonce=\"000102030405060708090a0b0c0d0e0f\"'',
      str ''oauth_signature=\"AAAAAAAAAAAAAAAAAAAAAAAAAAA%3D\"'',
      str ''oauth_signature_method=\"HMAC-SHA1\"'', str ''oauth_timestamp=\"1700000000\"'',
      str ''oauth_token=\"at\"'', str ''oauth_version=\"1.0\"'']"
    unfolding sample_sorted_signed
    by (simp add: header_item_def zero_signature_def encode_simps str_def)
  then show ?thesis
    by (simp add: claimed_header_def) (simp add: join_def sample_claimed_header_def str_def)
qed

text \<open>
  C2 (as stated): the header lists all pairs, \<open>oauth_signature\<close> included, sorted
  lexicographically by key and joined with commas.
  This fails: in the header of the sample request \<open>oauth_signature\<close> is the last item,
  after \<open>oauth_version\<close>, while the sorted order has it third; the keys of the header are
  not in sorted order, and the items are separated by a comma and a space.
\<close>

theorem authHeader_counterexample:
  "map_option (\<lambda>r. map_of (req_headers r) (str ''Authorization'')) sample_request
     = Some (Some sample_header)
   \<and> claimed_header (sample_params @ [(str ''oauth_signature'', zero_signature)])
       = Some sample_claimed_header
   \<and> sample_header \<noteq> sample_claimed_header
   \<and> map fst (sample_params @ [(str ''oauth_signature'', zero_signature)])
       \<noteq> sort (map fst (sample_params @ [(str ''oauth_signature'', zero_signature)]))"
proof -
  have "sample_header \<noteq> sample_claimed_header"
    by (simp add: sample_header_def sample_claimed_header_def str_def)
  moreover have "map fst (sample_params @ [(str ''oauth_signature'', zero_signature)])
       \<noteq> sort (map fst (sample_params @ [(str ''oauth_signature'', zero_signature)]))"
    unfolding map_sort_key [symmetric] sample_sorted_signed
    unfolding sample_params_eq by (simp add: str_def)
  ultimately show ?thesis
    using sample_request_header sample_claimed_header_eq by simp
qed

theorem authHeader_order_witness:
  "sample_request \<noteq> None
   \<and> map_option (\<lambda>r. map_of (req_headers r) (str ''Authorization'')) sample_request
       = Some (Some (str ''OAuth '' @ join (str '', '')
          [str ''oauth_consumer_key=\"k%2B1\"'', str ''oauth_nonce=\"000102030405060708090a0b0c0d0e0f\"'',
           str ''oauth_signature_method=\"HMAC-SHA1\"'', str ''oauth_timestamp=\"1700000000\"'',
           str ''oauth_token=\"at\"'', str ''oauth_version=\"1.0\"'',
           str ''oauth_signature=\"AAAAAAAAAAAAAAAAAAAAAAAAAAA%3D\"'']))"
proof -
  obtain req where req: "sample_request = Some req"
    using sample_request_header by (cases sample_request) auto
  then have sr: "signedRequest zero_hmac (str ''hi'') (str ''k+1'') (str ''cs'') (str ''at'')
      (str ''as'') 1700000000123 sample_rnd = Some req"
    by (simp add: sample_request_def)
  from authHeader_order [OF sr] obtain baseString key items where
    i: "sequence (map header_item
               (sort_key fst (oauthParams (str ''k+1'') (str ''at'') 1700000000123 sample_rnd)
                  @ [(str ''oauth_signature'', createOAuthSignature zero_hmac key baseString)]))
             = Some items"
    and h: "map_of (req_headers req) (str ''Authorization'')
             = Some (str ''OAuth '' @ join (str '', '') items)"
    by blast
  have "sort_key fst sample_params = sample_params"
    unfolding sample_params_def by (rule oauthParams_sorted)
  with i have e: "sequence (map header_item (sample_params @ [(str ''oauth_signature'', zero_signature)]))
      = Some items"
    by (simp add: sample_signature sample_params_def)
  have "Some items = Some
     [str ''oauth_consumer_key=\"k%2B1\"'', str ''oauth_nonce=\"000102030405060708090a0b0c0d0e0f\"'',
      str ''oauth_signature_method=\"HMAC-SHA1\"'', str ''oauth_timestamp=\"1700000000\"'',
      str ''oauth_token=\"at\"'', str ''oauth_version=\"1.0\"'',
      str ''oauth_signature=\"AAAAAAAAAAAAAAAAAAAAAAAAAAA%3D\"'']"
    using e sample_header_items by (simp only:)
  then have "map_of (req_headers req) (str ''Authorization'') = Some (str ''OAuth '' @ join (str '', '')
     [str ''oauth_consumer_key=\"k%2B1\"'', str ''oauth_nonce=\"000102030405060708090a0b0c0d0e0f\"'',
      str ''oauth_signature_method=\"HMAC-SHA1\"'', str ''oauth_timestamp=\"1700000000\"'',
      str ''oauth_token=\"at\"'', str ''oauth_version=\"1.0\"'',
      str ''oauth_signature=\"AAAAAAAAAAAAAAAAAAAAAAAAAAA%3D\"''])"
    using h by simp
  then show ?thesis
    unfolding req by simp
qed

section \<open>Properties of the publisher\<close>

lemma credentials_None_iff:
  "credentials env = None \<longleftrightarrow>
     \<not> truthy (getenv env TWITTER_CONSUMER_KEY) \<or> \<not> truthy (getenv env TWITTER_CONSUMER_SECRET)
     \<or> \<not> truthy (getenv env TWITTER_ACCESS_TOKEN) \<or> \<not> truthy (getenv env TWITTER_ACCESS_SECRET)"
  by (auto simp: credentials_def truthy_def split: option.splits)

lemma postToTwitter_missing:
  "credentials env = None \<Longrightarrow> postToTwitter hmac fetch tweetText env now rnd n = (False, n)"
  by (simp add: postToTwitter_def)

lemma postTweet_compose:
  "postTweet hmac fetch content telegramPrefix env now rnd n =
     (case postToTwitter hmac fetch content env now rnd n of
        (twitterResult, n1) \<Rightarrow>
          (case sendTelegramMessage fetch (escapeTelegramMarkdown content) telegramPrefix env n1 of
             (telegramResult, n2) \<Rightarrow> (twitterResult \<or> telegramResult, n2)))"
proof (cases "truthy (getenv env TWITTER_CONSUMER_KEY)")
  case True
  then show ?thesis by (simp add: postTweet_def)
next
  case False
  then have "credentials env = None" by (simp add: credentials_None_iff)
  then have "postToTwitter hmac fetch content env now rnd n = (False, n)"
    by (rule postToTwitter_missing)
  with False show ?thesis by (simp add: postTweet_def)
qed

text \<open>
  C8: for every text and environment \<open>postTweet\<close> returns the disjunction of the two
  surface outcomes, that of \<open>postToTwitter\<close> and that of \<open>sendTelegramMessage\<close> run on
  the escaped text in the world the first left, and leaves the world the second left.
  When any of the four Twitter credentials is missing or empty, \<open>postToTwitter\<close> returns
  false without building or sending a request (the world is unchanged), and \<open>postTweet\<close>
  is exactly the chat-surface attempt. Every outcome is a value: nothing is thrown.
\<close>

theorem postTweet_or:
  "fst (postTweet hmac fetch content telegramPrefix env now rnd n)
     = (fst (postToTwitter hmac fetch content env now rnd n)
        \<or> fst (sendTelegramMessage fetch (escapeTelegramMarkdown content) telegramPrefix env
                 (snd (postToTwitter hmac fetch content env now rnd n))))
   \<and> snd (postTweet hmac fetch content telegramPrefix env now rnd n)
       = snd (sendTelegramMessage fetch (escapeTelegramMarkdown content) telegramPrefix env
                (snd (postToTwitter hmac fetch content env now rnd n)))
   \<and> (\<not> truthy (getenv env TWITTER_CONSUMER_KEY) \<or> \<not> truthy (getenv env TWITTER_CONSUMER_SECRET)
        \<or> \<not> truthy (getenv env TWITTER_ACCESS_TOKEN) \<or> \<not> truthy (getenv env TWITTER_ACCESS_SECRET)
      \<longrightarrow> postToTwitter hmac fetch content env now rnd n = (False, n)
          \<and> postTweet hmac fetch content telegramPrefix env now rnd n
              = sendTelegramMessage fetch (escapeTelegramMarkdown content) telegramPrefix env n)"
proof -
  note c = postTweet_compose [of hmac fetch content telegramPrefix env now rnd n]
  have a: "fst (postTweet hmac fetch content telegramPrefix env now rnd n)
     = (fst (postToTwitter hmac fetch content env now rnd n)
        \<or> fst (sendTelegramMessage fetch (escapeTelegramMarkdown content) telegramPrefix env
                 (snd (postToTwitter hmac fetch content env now rnd n))))"
    using c by (simp split: prod.splits)
  have b: "snd (postTweet hmac fetch content telegramPrefix env now rnd n)
       = snd (sendTelegramMessage fetch (escapeTelegramMarkdown content) telegramPrefix env
                (snd (postToTwitter hmac fetch content env now rnd n)))"
    using c by (simp split: prod.splits)
  have d: "postToTwitter hmac fetch content env now rnd n = (False, n)
          \<and> postTweet hmac fetch content telegramPrefix env now rnd n
              = sendTelegramMessage fetch (escapeTelegramMarkdown content) telegramPrefix env n"
    if "credentials env = None"
  proof -
    have p: "postToTwitter hmac fetch content env now rnd n = (False, n)"
      using that by (rule postToTwitter_missing)
    then show ?thesis using c by (simp split: prod.splits)
  qed
  show ?thesis using a b d by (simp only: credentials_None_iff) blast
qed

theorem postTweet_or_witness:
  "\<not> truthy (getenv (Some partial_env) TWITTER_ACCESS_SECRET)
   \<and> truthy (getenv (Some partial_env) TWITTER_CONSUMER_KEY)
   \<and> postToTwitter zero_hmac recording_fetch (str ''a.b'') (Some partial_env) 1700000000123 sample_rnd []
       = (False, [])
   \<and> postTweet zero_hmac recording_fetch (str ''a.b'') (str ''p: '') (Some partial_env)
         1700000000123 sample_rnd []
       = (True, [telegram_request])"
proof -
  have m: "\<not> truthy (getenv (Some partial_env) TWITTER_ACCESS_SECRET)"
    by (simp add: partial_env_def test_env_def getenv_def truthy_def)
  have k: "truthy (getenv (Some partial_env) TWITTER_CONSUMER_KEY)"
    by (simp add: partial_env_def test_env_def getenv_def truthy_def str_def)
  have e: "escapeTelegramMarkdown (str ''a.b'') = str ''a'' @ [0x5C] @ str ''.b''"
    by (simp add: escapeTelegramMarkdown_def specialCharacters_def replace_char_def str_def)
  have t: "sendTelegramMessage recording_fetch (str ''a'' @ [0x5C] @ str ''.b'') (str ''p: '')
             (Some partial_env) [] = (True, [telegram_request])"
    by (simp add: sendTelegramMessage_def recording_fetch_def partial_env_def test_env_def
        getenv_def telegram_request_def) (simp add: str_def)
  show ?thesis
    using postTweet_or [of zero_hmac recording_fetch "str ''a.b''" "str ''p: ''" "Some partial_env"
        1700000000123 sample_rnd "[]"] m k e t
    by simp
qed

section \<open>Properties of the reply parser\<close>

lemmas json_simps =
  JSON_parse_def json_ws_def digit_def lex_number_def lex_int_def lex_frac_def lex_exp_def
  lex_sign_def escape_char_def hex4_def hex_value_def

lemmas tweet_simps =
  parseTweet_def first_attempt_def second_attempt_def get_tweet_def own_property_def
  js_truthy_def Number_toString_def exact_integer_def plain_integer_def trim_def js_space_def

lemma parse_tweet_hi:
  \<open>JSON_parse (str ''{"tweet":"hi"}'') = Inr (JObject [(str ''tweet'', JString (str ''hi''))])\<close>
  by (simp add: json_simps str_def)

lemma parse_not_json: "JSON_parse (str ''not json'') = Inl SyntaxError"
  by (simp add: json_simps str_def)

lemma parse_fenced_json:
  \<open>JSON_parse (fenced (str ''json'') (str ''{"tweet":"hi"}'')) = Inl SyntaxError\<close>
  by (simp add: json_simps fenced_def str_def)

lemma parse_fenced_plain:
  \<open>JSON_parse (fenced [] (str ''{"tweet":"hi"}'')) = Inl SyntaxError\<close>
  by (simp add: json_simps fenced_def str_def)

lemma strip_fenced_json:
  \<open>trim (strip_fences (fenced (str ''json'') (str ''{"tweet":"hi"}''))) = str ''{"tweet":"hi"}''\<close>
  by (simp add: fenced_def trim_def js_space_def str_def)

lemma strip_fenced_plain:
  \<open>trim (strip_fences (fenced [] (str ''{"tweet":"hi"}''))) = str ''{"tweet":"hi"}''\<close>
  by (simp add: fenced_def trim_def js_space_def str_def)

lemma strip_not_json: "trim (strip_fences (str ''not json'')) = str ''not json''"
  by (simp add: trim_def js_space_def str_def)

lemma tweet_of_hi:
  "get_tweet (JObject [(str ''tweet'', JString (str ''hi''))]) = Inr (Some (JString (str ''hi'')))"
  by (simp add: get_tweet_def own_property_def)

text \<open>
  C7: \<open>parseTweet\<close> on \<open>{"tweet":"hi"}\<close> returns \<open>hi\<close>; on the same text between
  triple-backtick fences, with the tag \<open>json\<close> or with none, the first parse fails, the
  fences and the surrounding line breaks are stripped, the second parse succeeds, and it
  returns \<open>hi\<close>; on \<open>not json\<close> both parses fail and it returns \<open>undefined\<close>.
\<close>

theorem parseTweet_examples:
  \<open>parseTweet float_text (str ''{"tweet":"hi"}'') = Some (JString (str ''hi''))
   \<and> first_attempt float_text (fenced (str ''json'') (str ''{"tweet":"hi"}'')) = Inl SyntaxError
   \<and> trim (strip_fences (fenced (str ''json'') (str ''{"tweet":"hi"}''))) = str ''{"tweet":"hi"}''
   \<and> parseTweet float_text (fenced (str ''json'') (str ''{"tweet":"hi"}'')) = Some (JString (str ''hi''))
   \<and> first_attempt float_text (fenced [] (str ''{"tweet":"hi"}'')) = Inl SyntaxError
   \<and> parseTweet float_text (fenced [] (str ''{"tweet":"hi"}'')) = Some (JString (str ''hi''))
   \<and> first_attempt float_text (str ''not json'') = Inl SyntaxError
   \<and> second_attempt (str ''not json'') = Inl SyntaxError
   \<and> parseTweet float_text (str ''not json'') = None\<close>
proof -
  have hi: "js_truthy float_text (Some (JString (str ''hi'')))"
    by (simp add: js_truthy_def str_def)
  have a: \<open>parseTweet float_text (str ''{"tweet":"hi"}'') = Some (JString (str ''hi''))\<close>
    by (simp add: parseTweet_def first_attempt_def parse_tweet_hi tweet_of_hi hi)
  have b1: \<open>first_attempt float_text (fenced (str ''json'') (str ''{"tweet":"hi"}'')) = Inl SyntaxError\<close>
    by (simp add: first_attempt_def parse_fenced_json)
  have b2: \<open>second_attempt (fenced (str ''json'') (str ''{"tweet":"hi"}''))
      = Inr (Some (JString (str ''hi'')))\<close>
    by (simp add: second_attempt_def strip_fenced_json parse_tweet_hi tweet_of_hi)
  have c1: \<open>first_attempt float_text (fenced [] (str ''{"tweet":"hi"}'')) = Inl SyntaxError\<close>
    by (simp add: first_attempt_def parse_fenced_plain)
  have c2: \<open>second_attempt (fenced [] (str ''{"tweet":"hi"}''))
      = Inr (Some (JString (str ''hi'')))\<close>
    by (simp add: second_attempt_def strip_fenced_plain parse_tweet_hi tweet_of_hi)
  have d1: "first_attempt float_text (str ''not json'') = Inl SyntaxError"
    by (simp add: first_attempt_def parse_not_json)
  have d2: "second_attempt (str ''not json'') = Inl SyntaxError"
    by (simp add: second_attempt_def strip_not_json parse_not_json)
  show ?thesis
    using a b1 b2 c1 c2 d1 d2 strip_fenced_json by (simp add: parseTweet_def)
qed

lemma parse_null: "JSON_parse (str ''null'') = Inr JNull"
  by (simp add: json_simps str_def)

lemma strip_null: "trim (strip_fences (str ''null'')) = str ''null''"
  by (simp add: trim_def js_space_def str_def)

lemma parse_own_toString:
  \<open>JSON_parse (str ''{"toString":1}'') = Inr (JObject [(str ''toString'', JNumber (str ''1''))])\<close>
  by (simp add: json_simps str_def)

lemma strip_own_toString:
  \<open>trim (strip_fences (str ''{"toString":1}'')) = str ''{"toString":1}''\<close>
  by (simp add: trim_def js_space_def str_def)

lemma parse_123: "JSON_parse (str ''123'') = Inr (JNumber (str ''123''))"
  by (simp add: json_simps str_def)

lemma parse_a1:
  \<open>JSON_parse (str ''{"a":1}'') = Inr (JObject [(str ''a'', JNumber (str ''1''))])\<close>
  by (simp add: json_simps str_def)

text \<open>
  C9 (as stated): every input that parses as JSON and has no truthy \<open>tweet\<close> field makes
  \<open>parseTweet\<close> return the stringified parsed value.
  This fails: \<open>null\<close> is valid JSON with no \<open>tweet\<close> field; reading \<open>tweet\<close> on it
  throws in both attempts and \<open>parseTweet\<close> returns \<open>undefined\<close>. So does the object
  \<open>{"toString":1}\<close>, whose own member hides the method.
\<close>

theorem parseTweet_fallback_counterexample:
  \<open>JSON_parse (str ''null'') = Inr JNull
   \<and> parseTweet id (str ''null'') = None
   \<and> JSON_parse (str ''{"toString":1}'') = Inr (JObject [(str ''toString'', JNumber (str ''1''))])
   \<and> own_property (JObject [(str ''toString'', JNumber (str ''1''))]) (str ''tweet'') = None
   \<and> parseTweet id (str ''{"toString":1}'') = None\<close>
proof -
  have a: "parseTweet id (str ''null'') = None"
    by (simp add: parseTweet_def first_attempt_def second_attempt_def parse_null strip_null
        get_tweet_def)
  have t: "own_property (JObject [(str ''toString'', JNumber (str ''1''))]) (str ''tweet'') = None"
    by (simp add: own_property_def str_def)
  have b: \<open>parseTweet id (str ''{"toString":1}'') = None\<close>
    by (simp add: parseTweet_def first_attempt_def second_attempt_def parse_own_toString
        strip_own_toString get_tweet_def t js_truthy_def)
  show ?thesis using a b t parse_null parse_own_toString by simp
qed

text \<open>
  C9 (amended): for every input that parses as JSON to a value on which the read of
  \<open>tweet\<close> does not throw (any value but \<open>null\<close>) and gives nothing truthy, and whose
  conversion to a string does not throw (no object with a member \<open>toString\<close> of its own
  is converted), \<open>parseTweet\<close> returns the string of the parsed value; for an object
  that string is \<open>[object Object]\<close>.
\<close>

theorem parseTweet_toString_fallback:
  assumes "JSON_parse res = Inr v"
      and "get_tweet v = Inr t"
      and "\<not> js_truthy float_text t"
      and "to_string float_text v = Inr s"
  shows "parseTweet float_text res = Some (JString s)
       \<and> (case v of JObject kvs \<Rightarrow> s = str ''[object Object]'' | _ \<Rightarrow> True)"
proof -
  have "first_attempt float_text res = Inr (Some (JString s))"
    using assms by (simp add: first_attempt_def)
  then have "parseTweet float_text res = Some (JString s)"
    by (simp add: parseTweet_def)
  moreover have "case v of JObject kvs \<Rightarrow> s = str ''[object Object]'' | _ \<Rightarrow> True"
    using assms(4) by (cases v) (auto split: if_splits)
  ultimately show ?thesis by simp
qed

theorem parseTweet_toString_fallback_witness:
  \<open>parseTweet id (str ''123'') = Some (JString (str ''123''))
   \<and> parseTweet id (str ''{"a":1}'') = Some (JString (str ''[object Object]''))\<close>
proof -
  have n: "to_string id (JNumber (str ''123'')) = Inr (str ''123'')"
    by (simp add: Number_toString_def exact_integer_def plain_integer_def digit_def str_def)
  have g: "get_tweet (JNumber (str ''123'')) = Inr None"
    by (simp add: get_tweet_def own_property_def)
  have f: "\<not> js_truthy id None"
    by (simp add: js_truthy_def)
  have o: "to_string id (JObject [(str ''a'', JNumber (str ''1''))]) = Inr (str ''[object Object]'')"
    by (simp add: str_def)
  have h: "get_tweet (JObject [(str ''a'', JNumber (str ''1''))]) = Inr None"
    by (simp add: get_tweet_def own_property_def str_def)
  show ?thesis
    using parseTweet_toString_fallback [OF parse_123 g f n]
      parseTweet_toString_fallback [OF parse_a1 h f o]
    by simp
qed

end
